theory Spec2Isabelle
  imports Complex_Main
begin

section \<open>Python strings and integers\<close>

text \<open>
  A Python \<open>str\<close> is modelled as a list of characters, each read as a code point below
  256. The library functions the two scripts call on strings are written out below with
  the behaviour of CPython 3.11 on such strings.
\<close>

datatype py_error =
    ValueError | IndexError | AttributeError | TimeoutException | WebDriverException
  | NoSuchElementException | CsvError | OtherException

text \<open>\<open>str.isspace\<close> on one character; the set that \<open>str.strip()\<close> removes.\<close>

definition py_isspace :: "char \<Rightarrow> bool" where
  "py_isspace c = (c \<in> set [CHR 0x09, CHR 0x0A, CHR 0x0B, CHR 0x0C, CHR 0x0D, CHR 0x1C,
     CHR 0x1D, CHR 0x1E, CHR 0x1F, CHR 0x20, CHR 0x85, CHR 0xA0])"

text \<open>The whitespace \<open>int(str)\<close> skips around the literal: the separators 0x1C..0x1F are
  not part of it.\<close>

definition int_isspace :: "char \<Rightarrow> bool" where
  "int_isspace c = (c \<in> set [CHR 0x09, CHR 0x0A, CHR 0x0B, CHR 0x0C, CHR 0x0D, CHR 0x20,
     CHR 0x85, CHR 0xA0])"

definition is_decimal :: "char \<Rightarrow> bool" where
  "is_decimal c = (c \<in> set ''0123456789'')"

text \<open>\<open>str.isdigit\<close> also accepts the superscript digits of Latin-1.\<close>

definition isdigit :: "string \<Rightarrow> bool" where
  "isdigit s = (s \<noteq> [] \<and> list_all (\<lambda>c. is_decimal c \<or> c \<in> set [CHR 0xB2, CHR 0xB3, CHR 0xB9]) s)"

definition digit_val :: "char \<Rightarrow> nat" where
  "digit_val c = of_char c - 48"

definition digit_char :: "nat \<Rightarrow> char" where
  "digit_char n = char_of (48 + n)"

definition strip :: "string \<Rightarrow> string" where
  "strip s = rev (dropWhile py_isspace (rev (dropWhile py_isspace s)))"

definition startswith :: "string \<Rightarrow> string \<Rightarrow> bool" where
  "startswith s p = (take (length p) s = p)"

definition endswith :: "string \<Rightarrow> string \<Rightarrow> bool" where
  "endswith s p = (length p \<le> length s \<and> drop (length s - length p) s = p)"

text \<open>\<open>sub in s\<close>.\<close>

fun contains :: "string \<Rightarrow> string \<Rightarrow> bool" where
  "contains sub [] = (sub = [])"
| "contains sub (c # cs) = (startswith (c # cs) sub \<or> contains sub cs)"

text \<open>\<open>s.replace(old, new)\<close> for a non-empty \<open>old\<close>: the occurrences are found from the
  left and do not overlap. (The scripts only call it with non-empty patterns; for an
  empty pattern the model leaves the string as it is.)\<close>

fun replace :: "string \<Rightarrow> string \<Rightarrow> string \<Rightarrow> string" where
  "replace old new [] = []"
| "replace old new (c # cs) =
     (if old \<noteq> [] \<and> startswith (c # cs) old
      then new @ replace old new (drop (length old - 1) cs)
      else c # replace old new cs)"

text \<open>The digits of an integer literal: single underscores may stand between digits.\<close>

fun literal_digits :: "string \<Rightarrow> string option" where
  "literal_digits [] = None"
| "literal_digits [c] = (if is_decimal c then Some [c] else None)"
| "literal_digits (c # d # cs) =
     (if \<not> is_decimal c then None
      else if d = CHR ''_'' then map_option (Cons c) (literal_digits cs)
      else map_option (Cons c) (literal_digits (d # cs)))"

definition dec_value :: "string \<Rightarrow> int" where
  "dec_value ds = foldl (\<lambda>a c. 10 * a + int (digit_val c)) 0 ds"

definition int_max_str_digits :: int where
  "int_max_str_digits = 4300"

text \<open>\<open>int(s)\<close> for a string: surrounding whitespace, an optional sign, decimal digits.
  Anything else, and a literal of more than 4300 digits, raises \<open>ValueError\<close>.\<close>

definition int_of_str :: "string \<Rightarrow> py_error + int" where
  "int_of_str s =
     (let t = rev (dropWhile int_isspace (rev (dropWhile int_isspace s)));
          neg = (t \<noteq> [] \<and> hd t = CHR ''-'');
          body = (if t \<noteq> [] \<and> (hd t = CHR ''-'' \<or> hd t = CHR ''+'') then tl t else t)
      in case literal_digits body of
           None \<Rightarrow> Inl ValueError
         | Some ds \<Rightarrow>
             if int (length ds) > int_max_str_digits then Inl ValueError
             else Inr (if neg then - dec_value ds else dec_value ds))"

text \<open>\<open>str(n)\<close> for an integer.\<close>

function digits :: "int \<Rightarrow> string" where
  "digits n =
     (if n < 10 then [digit_char (nat n)] else digits (n div 10) @ [digit_char (nat (n mod 10))])"
  by pat_completeness auto
termination
  by (relation "measure nat") auto

declare digits.simps [simp del]

definition str_of_int :: "int \<Rightarrow> string" where
  "str_of_int i = (if i < 0 then CHR ''-'' # digits (- i) else digits i)"

text \<open>\<open>xs[i]\<close> for a non-negative index.\<close>

definition py_index :: "'a list \<Rightarrow> nat \<Rightarrow> py_error + 'a" where
  "py_index xs i = (if i < length xs then Inr (xs ! i) else Inl IndexError)"

section \<open>Exporter: the rating encoded in a CSS class\<close>

text \<open>
  \<open>get_rating\<close> of \<open>douban_to_csv.py\<close>. The \<open>try\<close> block catches \<open>ValueError\<close> and
  \<open>AttributeError\<close>; any other exception would leave the function, so the result is a sum.
\<close>

definition get_rating :: "string option \<Rightarrow> py_error + int option" where
  "get_rating rating_class =
     (case rating_class of
        None \<Rightarrow> Inr None
      | Some rc \<Rightarrow>
          if rc = [] then Inr None
          else (case int_of_str (replace ''-t'' '''' (replace ''rating'' '''' rc)) of
                  Inl e \<Rightarrow> if e = ValueError \<or> e = AttributeError then Inr None else Inl e
                | Inr rating_digit \<Rightarrow>
                    Inr (if 1 \<le> rating_digit \<and> rating_digit \<le> 5 then Some rating_digit else None)))"


section \<open>The CSV file between the two scripts\<close>

text \<open>
  The exporter writes \<open>movie.csv\<close> with \<open>csv.writer(f, lineterminator='\n')\<close> on a file
  opened with \<open>newline=''\<close>; the importer reads it with \<open>csv.reader\<close> on a file opened in
  the default text mode. Both use the \<open>excel\<close> dialect: delimiter \<open>,\<close>, quote character
  \<open>"\<close>, minimal quoting, doubled quotes, no escape character, not strict. The functions
  below follow the writer and the reader state machine of CPython's \<open>_csv\<close> module for that
  dialect.
\<close>

definition LF :: char where "LF = CHR 0x0A"
definition CR :: char where "CR = CHR 0x0D"
definition DQUOTE :: char where "DQUOTE = CHR 0x22"
definition COMMA :: char where "COMMA = CHR 0x2C"

text \<open>A cell of a row handed to the writer: a string, an integer or \<open>None\<close>.\<close>

datatype cell = CStr string | CInt int | CNone

definition cell_text :: "cell \<Rightarrow> string" where
  "cell_text c = (case c of CNone \<Rightarrow> [] | CInt i \<Rightarrow> str_of_int i | CStr s \<Rightarrow> s)"

definition needs_quote :: "char \<Rightarrow> bool" where
  "needs_quote c = (c = COMMA \<or> c = DQUOTE \<or> c = LF \<or> c = CR)"

definition quote_field :: "string \<Rightarrow> string" where
  "quote_field s =
     (if list_ex needs_quote s
      then DQUOTE # concat (map (\<lambda>c. if c = DQUOTE then [c, c] else [c]) s) @ [DQUOTE]
      else s)"

fun join :: "string \<Rightarrow> string list \<Rightarrow> string" where
  "join sep [] = []"
| "join sep [x] = x"
| "join sep (x # y # ys) = x @ sep @ join sep (y # ys)"

text \<open>A row whose only field is empty is written as a pair of quotes.\<close>

definition writerow :: "cell list \<Rightarrow> string" where
  "writerow cells =
     (if map cell_text cells = [[]] then [DQUOTE, DQUOTE, LF]
      else join [COMMA] (map (quote_field \<circ> cell_text) cells) @ [LF])"

definition writerows :: "cell list list \<Rightarrow> string" where
  "writerows rows = concat (map writerow rows)"

text \<open>Reading a text file opened without \<open>newline=''\<close>: \<open>\r\n\<close> and \<open>\r\<close> become \<open>\n\<close>,
  and iterating the file yields its lines, each with its terminator.\<close>

fun universal_newlines :: "string \<Rightarrow> string" where
  "universal_newlines [] = []"
| "universal_newlines [c] = [if c = CR then LF else c]"
| "universal_newlines (c # d # cs) =
     (if c = CR \<and> d = LF then LF # universal_newlines cs
      else (if c = CR then LF else c) # universal_newlines (d # cs))"

fun file_lines :: "string \<Rightarrow> string \<Rightarrow> string list" where
  "file_lines cur [] = (if cur = [] then [] else [cur])"
| "file_lines cur (c # cs) =
     (if c = LF then (cur @ [c]) # file_lines [] cs else file_lines (cur @ [c]) cs)"

datatype pstate =
  START_RECORD | START_FIELD | IN_FIELD | IN_QUOTED_FIELD | QUOTE_IN_QUOTED_FIELD | EAT_CRNL

record parser =
  pfields :: "string list"
  pfield :: string
  pst :: pstate

definition field_limit :: int where
  "field_limit = 131072"

definition parse_reset :: parser where
  "parse_reset = \<lparr>pfields = [], pfield = [], pst = START_RECORD\<rparr>"

definition parse_save_field :: "parser \<Rightarrow> parser" where
  "parse_save_field p = p\<lparr>pfields := pfields p @ [pfield p], pfield := []\<rparr>"

definition parse_add_char :: "parser \<Rightarrow> char \<Rightarrow> py_error + parser" where
  "parse_add_char p c =
     (if int (length (pfield p)) \<ge> field_limit then Inl CsvError else Inr (p\<lparr>pfield := pfield p @ [c]\<rparr>))"

definition is_newline :: "char option \<Rightarrow> bool" where
  "is_newline c = (c = None \<or> c = Some LF \<or> c = Some CR)"

definition after_newline :: "char option \<Rightarrow> pstate" where
  "after_newline c = (if c = None then START_RECORD else EAT_CRNL)"

text \<open>One step of the reader; \<open>None\<close> is the end-of-line signal the reader gives itself
  after the last character of each line.\<close>

definition start_field :: "parser \<Rightarrow> char option \<Rightarrow> py_error + parser" where
  "start_field p c =
     (if is_newline c then Inr ((parse_save_field p)\<lparr>pst := after_newline c\<rparr>)
      else if c = Some DQUOTE then Inr (p\<lparr>pst := IN_QUOTED_FIELD\<rparr>)
      else if c = Some COMMA then Inr (parse_save_field p)
      else map_sum id (\<lambda>q. q\<lparr>pst := IN_FIELD\<rparr>) (parse_add_char p (the c)))"

definition parse_process_char :: "parser \<Rightarrow> char option \<Rightarrow> py_error + parser" where
  "parse_process_char p c =
     (case pst p of
        START_RECORD \<Rightarrow>
          if c = None then Inr p
          else if c = Some LF \<or> c = Some CR then Inr (p\<lparr>pst := EAT_CRNL\<rparr>)
          else start_field (p\<lparr>pst := START_FIELD\<rparr>) c
      | START_FIELD \<Rightarrow> start_field p c
      | IN_FIELD \<Rightarrow>
          if is_newline c then Inr ((parse_save_field p)\<lparr>pst := after_newline c\<rparr>)
          else if c = Some COMMA then Inr ((parse_save_field p)\<lparr>pst := START_FIELD\<rparr>)
          else parse_add_char p (the c)
      | IN_QUOTED_FIELD \<Rightarrow>
          if c = None then Inr p
          else if c = Some DQUOTE then Inr (p\<lparr>pst := QUOTE_IN_QUOTED_FIELD\<rparr>)
          else parse_add_char p (the c)
      | QUOTE_IN_QUOTED_FIELD \<Rightarrow>
          if c = Some DQUOTE
          then map_sum id (\<lambda>q. q\<lparr>pst := IN_QUOTED_FIELD\<rparr>) (parse_add_char p DQUOTE)
          else if c = Some COMMA then Inr ((parse_save_field p)\<lparr>pst := START_FIELD\<rparr>)
          else if is_newline c then Inr ((parse_save_field p)\<lparr>pst := after_newline c\<rparr>)
          else map_sum id (\<lambda>q. q\<lparr>pst := IN_FIELD\<rparr>) (parse_add_char p (the c))
      | EAT_CRNL \<Rightarrow>
          if c = Some LF \<or> c = Some CR then Inr p
          else if c = None then Inr (p\<lparr>pst := START_RECORD\<rparr>)
          else Inl CsvError)"

fun feed_line :: "parser \<Rightarrow> string \<Rightarrow> py_error + parser" where
  "feed_line p [] = parse_process_char p None"
| "feed_line p (c # cs) =
     (case parse_process_char p (Some c) of Inl e \<Rightarrow> Inl e | Inr q \<Rightarrow> feed_line q cs)"

text \<open>
  The reader as the importer's \<open>for line in content\<close> drives it: each \<open>__next__\<close> starts
  from a reset parser and takes lines until the state is \<open>START_RECORD\<close> again; at the end
  of the input a pending field is saved and the row returned. The result is the list of
  rows handed to the loop body and the error, if one stopped the iteration.
\<close>

fun reader :: "parser \<Rightarrow> string list \<Rightarrow> string list list \<times> py_error option" where
  "reader p [] =
     (if pfield p \<noteq> [] \<or> pst p = IN_QUOTED_FIELD then ([pfields (parse_save_field p)], None)
      else ([], None))"
| "reader p (l # ls) =
     (case feed_line p l of
        Inl e \<Rightarrow> ([], Some e)
      | Inr q \<Rightarrow>
          if pst q = START_RECORD
          then (case reader parse_reset ls of (rows, e) \<Rightarrow> (pfields q # rows, e))
          else reader q ls)"

definition read_csv :: "string \<Rightarrow> string list list \<times> py_error option" where
  "read_csv content = reader parse_reset (file_lines [] (universal_newlines content))"


section \<open>Importer: \<open>csv_to_imdb.py\<close>\<close>

text \<open>
  The destination site is driven through a browser. What the site answers to each
  interaction of one row is an input of the model: a record of the outcomes of the
  Selenium calls \<open>mark\<close> makes for that row, in the order it makes them.
\<close>

datatype marker = Found | NoSuchElement | LookupFails

record ui =
  search_box :: bool    \<comment> \<open>the search box appears within 60 seconds\<close>
  submit_ok :: bool     \<comment> \<open>clearing, typing and submitting raise nothing\<close>
  rating_marker :: marker   \<comment> \<open>\<open>find_element\<close> of the user-rating element\<close>
  rate_button_ok :: bool
  delete_ok :: bool
  star_ok :: bool
  confirm_ok :: bool

text \<open>The interactions with the browser, logged in order.\<close>

datatype ui_action =
    WaitSearchBox | SendKeys string | FindMarker | RateButton | DeleteClick
  | StarClick int | ConfirmClick | Sleep nat | DriverStart | DriverQuit

text \<open>The four suffixes \<open>mark\<close> appends to an entry of \<open>error_movies\<close>.\<close>

datatype err_kind = DeleteFailed | RateFailed | ProcessError | LineException

record mark_state =
  success_marked :: nat
  success_unmarked :: nat
  can_not_found :: "string list"
  already_marked :: "string list"
  never_marked :: "string list"
  error_movies :: "(string \<times> err_kind) list"
  ui_log :: "ui_action list"

definition mark_init :: mark_state where
  "mark_init = \<lparr>success_marked = 0, success_unmarked = 0, can_not_found = [],
     already_marked = [], never_marked = [], error_movies = [], ui_log = []\<rparr>"

definition act :: "ui_action list \<Rightarrow> mark_state \<Rightarrow> mark_state" where
  "act as st = st\<lparr>ui_log := ui_log st @ as\<rparr>"

text \<open>\<open>f'{movie_name}({imdb_id})'\<close>\<close>

definition label :: "string \<Rightarrow> string \<Rightarrow> string" where
  "label movie_name imdb_id = movie_name @ ''('' @ imdb_id @ '')''"

text \<open>\<open>int(line[1]) * 2 + rating_ajust\<close>\<close>

definition movie_rate :: "string list \<Rightarrow> int \<Rightarrow> py_error + int" where
  "movie_rate line rating_ajust =
     (case py_index line 1 of
        Inl e \<Rightarrow> Inl e
      | Inr f \<Rightarrow> (case int_of_str f of Inl e \<Rightarrow> Inl e | Inr r \<Rightarrow> Inr (r * 2 + rating_ajust)))"

text \<open>
  The part of the loop body after the id check: search, look for the rating marker, then
  rate or delete. The result is the exception that reaches the handler of the outer
  \<open>try\<close>, if any, and the state.
\<close>

definition rate_on_imdb ::
  "bool \<Rightarrow> ui \<Rightarrow> string \<Rightarrow> int \<Rightarrow> string \<Rightarrow> mark_state \<Rightarrow> py_error option \<times> mark_state" where
  "rate_on_imdb is_unmark u movie_name rate imdb_id st =
     (if \<not> search_box u then (Some TimeoutException, act [WaitSearchBox] st)
      else if \<not> submit_ok u then (Some WebDriverException, act [WaitSearchBox, SendKeys imdb_id] st)
      else
        let st1 = act [WaitSearchBox, SendKeys imdb_id, Sleep 3, FindMarker] st in
        case rating_marker u of
          LookupFails \<Rightarrow> (Some WebDriverException, st1)
        | NoSuchElement \<Rightarrow>
            (None, act [Sleep 2]
               (if is_unmark
                then st1\<lparr>never_marked := never_marked st1 @ [label movie_name imdb_id]\<rparr>
                else st1\<lparr>already_marked := already_marked st1 @ [label movie_name imdb_id]\<rparr>))
        | Found \<Rightarrow>
            (None, act [Sleep 2]
               (if \<not> rate_button_ok u
                then st1\<lparr>error_movies := error_movies st1 @ [(label movie_name imdb_id, ProcessError)]\<rparr>
                else
                  let st2 = act [RateButton, Sleep 1] st1 in
                  if is_unmark then
                    (if \<not> delete_ok u
                     then st2\<lparr>error_movies := error_movies st2 @ [(label movie_name imdb_id, DeleteFailed)]\<rparr>
                     else (act [DeleteClick] st2)\<lparr>success_unmarked := success_unmarked st2 + 1\<rparr>)
                  else
                    (if \<not> star_ok u
                     then st2\<lparr>error_movies := error_movies st2 @ [(label movie_name imdb_id, RateFailed)]\<rparr>
                     else if \<not> confirm_ok u
                     then (act [StarClick rate, Sleep 1] st2)
                            \<lparr>error_movies := error_movies st2 @ [(label movie_name imdb_id, RateFailed)]\<rparr>
                     else (act [StarClick rate, Sleep 1, ConfirmClick] st2)
                            \<lparr>success_marked := success_marked st2 + 1\<rparr>))))"

text \<open>The body of the outer \<open>try\<close> for one line of the CSV file.\<close>

definition try_line ::
  "bool \<Rightarrow> int \<Rightarrow> ui \<Rightarrow> string list \<Rightarrow> mark_state \<Rightarrow> py_error option \<times> mark_state" where
  "try_line is_unmark rating_ajust u line st =
     (case py_index line 1 of
        Inl e \<Rightarrow> (Some e, st)
      | Inr rating_field \<Rightarrow>
          if rating_field = [] then (None, st)
          else
            (case py_index line 0 of
               Inl e \<Rightarrow> (Some e, st)
             | Inr movie_name \<Rightarrow>
                 (case movie_rate line rating_ajust of
                    Inl e \<Rightarrow> (Some e, st)
                  | Inr rate \<Rightarrow>
                      (case py_index line 2 of
                         Inl e \<Rightarrow> (Some e, st)
                       | Inr imdb_id \<Rightarrow>
                           if imdb_id = [] \<or> \<not> startswith imdb_id ''tt''
                           then (None, st\<lparr>can_not_found := can_not_found st @ [movie_name]\<rparr>)
                           else rate_on_imdb is_unmark u movie_name rate imdb_id st))))"

text \<open>One iteration of \<open>for line in content\<close>: the body and the handler of its \<open>try\<close>.\<close>

definition process_line :: "bool \<Rightarrow> int \<Rightarrow> ui \<Rightarrow> string list \<Rightarrow> mark_state \<Rightarrow> mark_state" where
  "process_line is_unmark rating_ajust u line st =
     (case try_line is_unmark rating_ajust u line st of
        (None, st') \<Rightarrow> st'
      | (Some e, st') \<Rightarrow>
          if length line \<ge> 3 \<and> line ! 0 \<noteq> [] \<and> line ! 2 \<noteq> []
          then st'\<lparr>error_movies := error_movies st' @ [(label (line ! 0) (line ! 2), LineException)]\<rparr>
          else st')"

text \<open>The loop over the rows; \<open>us i\<close> is what the site answers for row \<open>i\<close>.\<close>

fun mark_rows ::
  "bool \<Rightarrow> int \<Rightarrow> (nat \<Rightarrow> ui) \<Rightarrow> nat \<Rightarrow> string list list \<Rightarrow> mark_state \<Rightarrow> mark_state" where
  "mark_rows is_unmark rating_ajust us i [] st = st"
| "mark_rows is_unmark rating_ajust us i (line # rest) st =
     mark_rows is_unmark rating_ajust us (Suc i) rest (process_line is_unmark rating_ajust (us i) line st)"

text \<open>
  \<open>login\<close> starts Firefox and waits for the operator to sign in; it re-raises whatever
  goes wrong, before or after the browser has started.
\<close>

datatype login_outcome = LoggedIn | StartFails | LoginFails

text \<open>
  How a run of the importer ends: with a message and \<open>sys.exit()\<close>, with the traceback of
  an exception nothing catches (from \<open>login\<close>, from the CSV reader or from \<open>int\<close>), or
  with the summary, printed after \<open>driver.quit()\<close>.
\<close>

datatype run =
    NoCsvFile
  | Usage
  | Traceback py_error mark_state
  | Summary bool mark_state

definition mark :: "bool \<Rightarrow> int \<Rightarrow> login_outcome \<Rightarrow> (nat \<Rightarrow> ui) \<Rightarrow> string \<Rightarrow> run" where
  "mark is_unmark rating_ajust lg us content =
     (case lg of
        StartFails \<Rightarrow> Traceback WebDriverException mark_init
      | LoginFails \<Rightarrow> Traceback TimeoutException (act [DriverStart] mark_init)
      | LoggedIn \<Rightarrow>
          (case read_csv content of
             (rows, Some e) \<Rightarrow>
               Traceback e (mark_rows is_unmark rating_ajust us 0 rows (act [DriverStart] mark_init))
           | (rows, None) \<Rightarrow>
               Summary is_unmark
                 (act [DriverQuit]
                    (mark_rows is_unmark rating_ajust us 0 rows (act [DriverStart] mark_init)))))"

text \<open>The script's entry point: \<open>movie_csv\<close> is the content of \<open>movie.csv\<close>, if the file
  exists, and \<open>argv\<close> is \<open>sys.argv\<close>.\<close>

definition main :: "string option \<Rightarrow> string list \<Rightarrow> login_outcome \<Rightarrow> (nat \<Rightarrow> ui) \<Rightarrow> run" where
  "main movie_csv argv lg us =
     (case movie_csv of
        None \<Rightarrow> NoCsvFile
      | Some content \<Rightarrow>
          if length argv > 1 \<and> argv ! 1 = ''unmark'' then mark True (- 1) lg us content
          else if length argv > 1 then
            (if argv ! 1 \<notin> set [''-2'', ''-1'', ''0'', ''1'', ''2''] then Usage
             else (case int_of_str (argv ! 1) of
                     Inl e \<Rightarrow> Traceback e mark_init
                   | Inr a \<Rightarrow> mark False a lg us content))
          else mark False (- 1) lg us content)"

text \<open>A site on which every interaction succeeds.\<close>

definition ui_ok :: ui where
  "ui_ok = \<lparr>search_box = True, submit_ok = True, rating_marker = Found, rate_button_ok = True,
     delete_ok = True, star_ok = True, confirm_ok = True\<rparr>"

text \<open>The class names of the documented form: \<open>rating\<close>, a digit from 1 to 5, \<open>-t\<close>.\<close>

definition canonical_class :: "string \<Rightarrow> bool" where
  "canonical_class s =
     (s \<in> set [''rating1-t'', ''rating2-t'', ''rating3-t'', ''rating4-t'', ''rating5-t''])"

section \<open>Exporter: \<open>douban_to_csv.py\<close>\<close>

subsection \<open>Pages, the outside world and the globals\<close>

text \<open>
  The text of a fetched page is only ever handed to BeautifulSoup. A page is modelled by
  what the selectors of the script find in it: the item blocks of a collection page, the
  link texts of its paginator, the info section and the anchors of a detail page, and
  whether the title says that the page does not exist.
\<close>

record item =
  title :: "string option"
    \<comment> \<open>the stripped title text the title selectors give, if one of them finds an element\<close>
  link :: "string option"   \<comment> \<open>\<open>href\<close> of the first anchor that has one\<close>
  rating_span :: "string option"
    \<comment> \<open>the first class of the first \<open>span\<close> one of whose classes starts with \<open>rating\<close>\<close>
  stars :: "string list option"
    \<comment> \<open>the classes of the \<open>.rate-stars\<close> or \<open>.rating\<close> element\<close>
  date_text :: "string option"   \<comment> \<open>the stripped text of the date element\<close>

datatype sibling = Text string | Element | NoSibling

record info_section =
  pl_spans :: "(string \<times> sibling) list"
    \<comment> \<open>text and next sibling of each \<open>span.pl\<close>\<close>
  stripped_strings :: "string list"

record html =
  not_found_title :: bool
  paginator :: "string list option"   \<comment> \<open>the texts of the links in \<open>div.paginator\<close>\<close>
  items :: "item list"                \<comment> \<open>the \<open>div.item\<close> blocks\<close>
  info :: "info_section option"       \<comment> \<open>the element with id \<open>info\<close>\<close>
  anchors :: "string list"            \<comment> \<open>the \<open>href\<close> of every anchor that has one\<close>

text \<open>What \<open>handle_login_challenge\<close> finds in the page source: no marker, the markers of
  a signed-in user, a challenge (and whether the operator's login removes it), or an
  exception on the way.\<close>

datatype challenge = NoMarkers | LoggedInMarkers | Challenged bool | ChallengeRaises

text \<open>
  What one attempt meets. In the browser: an operator interrupt, a \<open>TimeoutException\<close> or
  \<open>WebDriverException\<close> from loading the page, a page that shows a connection error
  (both with whether the following \<open>refresh\<close> works), another exception, or a loaded page.
  Over HTTP: an interrupt, a response with its status, an \<open>SSLError\<close> (with the result of
  the immediate second call, if it returns), a \<open>ProxyError\<close>, another
  \<open>RequestException\<close> (with whether its message contains \<open>ConnectionError\<close>), or
  another exception.
\<close>

datatype browser_outcome =
  BInterrupt | GetRaises bool | ErrorPage bool | BOther | Loaded challenge html

datatype http_outcome =
    HInterrupt | Status nat html | SSLError "(nat \<times> html) option" | ProxyError
  | RequestException bool | HOther

datatype cookie_outcome = NoCookieFile | CookiesAccepted | CookiesRejected | CookiesRaise

datatype manual_outcome = ManualOk | ManualNotDetected | ManualRaises

text \<open>The outside world: what happens at each consultation, numbered by \<open>tick\<close>.\<close>

record world =
  chrome_starts :: "nat \<Rightarrow> bool"
  browser :: "nat \<Rightarrow> string \<Rightarrow> browser_outcome"
  http :: "nat \<Rightarrow> string \<Rightarrow> http_outcome"
  random :: "nat \<Rightarrow> real"          \<comment> \<open>\<open>random.random()\<close>\<close>
  today :: "int \<times> int \<times> int"       \<comment> \<open>\<open>date.today()\<close> as year, month, day\<close>
  pad_year :: bool
    \<comment> \<open>whether the C library's \<open>%Y\<close> pads the year to four digits (glibc does not)\<close>
  cookies :: cookie_outcome
  manual :: manual_outcome

datatype path = ViaBrowser | ViaHttp

text \<open>What the process does to the outside, in order. Floats are read as reals.\<close>

datatype event =
    ChromeStarted | ChromeQuit | Fetch path string | SslRetry | Refresh
  | Backoff real | Pause real | SaveCookies | OperatorLogin

text \<open>The module's global variables, the position in the world, the log of events and
  the CSV file.\<close>

record globals =
  DRIVER :: "nat option"
  IS_OVER :: bool
  IS_LOGGED_IN :: bool
  START_DATE :: string
  tick :: nat
  trace :: "event list"
  movie_csv :: "string option"

definition MAX_RETRIES :: nat where "MAX_RETRIES = 3"
definition RETRY_DELAY :: nat where "RETRY_DELAY = 5"

definition globals_init :: globals where
  "globals_init = \<lparr>DRIVER = None, IS_OVER = False, IS_LOGGED_IN = False,
     START_DATE = ''20050502'', tick = 0, trace = [], movie_csv = None\<rparr>"

text \<open>\<open>SystemExit\<close> and \<open>KeyboardInterrupt\<close> are not caught by \<open>except Exception\<close>: they
  leave every function of the exporter up to the entry point.\<close>

datatype abort = SystemExit nat | KeyboardInterrupt

definition log :: "event list \<Rightarrow> globals \<Rightarrow> globals" where
  "log es g = g\<lparr>trace := trace g @ es\<rparr>"

text \<open>\<open>random.uniform(a, b)\<close>\<close>

definition uniform :: "world \<Rightarrow> real \<Rightarrow> real \<Rightarrow> globals \<Rightarrow> real \<times> globals" where
  "uniform w a b g = (a + (b - a) * random w (tick g), g\<lparr>tick := tick g + 1\<rparr>)"

subsection \<open>The browser session\<close>

text \<open>\<open>setup_driver\<close>: the existing session, or a new one; if Chrome cannot be started
  the function calls \<open>sys.exit(1)\<close>. (The \<open>headless\<close> flag only changes Chrome's options.)\<close>

definition setup_driver :: "world \<Rightarrow> bool \<Rightarrow> globals \<Rightarrow> (abort + nat) \<times> globals" where
  "setup_driver w headless g =
     (case DRIVER g of
        Some d \<Rightarrow> (Inr d, g)
      | None \<Rightarrow>
          if chrome_starts w (tick g)
          then (Inr (tick g), log [ChromeStarted] (g\<lparr>DRIVER := Some (tick g)\<rparr>))
          else (Inl (SystemExit 1), g))"

definition quit_driver :: "globals \<Rightarrow> globals" where
  "quit_driver g =
     (case DRIVER g of None \<Rightarrow> g | Some d \<Rightarrow> log [ChromeQuit] (g\<lparr>DRIVER := None\<rparr>))"

definition save_cookies :: "globals \<Rightarrow> globals" where
  "save_cookies g = (case DRIVER g of None \<Rightarrow> g | Some d \<Rightarrow> log [SaveCookies] g)"

definition load_cookies :: "world \<Rightarrow> globals \<Rightarrow> bool \<times> globals" where
  "load_cookies w g =
     (case DRIVER g of
        None \<Rightarrow> (False, g)
      | Some d \<Rightarrow>
          (case cookies w of
             NoCookieFile \<Rightarrow> (False, g)
           | CookiesRaise \<Rightarrow> (False, g)
           | CookiesRejected \<Rightarrow> (False, log [Pause 1, Pause 2] g)
           | CookiesAccepted \<Rightarrow> (True, log [Pause 1, Pause 2] (g\<lparr>IS_LOGGED_IN := True\<rparr>))))"

text \<open>\<open>handle_login_challenge\<close>: on a challenge the operator is asked to sign in and the
  page is loaded again; the function never raises.\<close>

definition handle_login_challenge :: "challenge \<Rightarrow> globals \<Rightarrow> bool \<times> globals" where
  "handle_login_challenge ch g =
     (case ch of
        Challenged recovered \<Rightarrow>
          if recovered then (True, save_cookies (log [OperatorLogin] (g\<lparr>IS_LOGGED_IN := True\<rparr>)))
          else (False, log [OperatorLogin] g)
      | LoggedInMarkers \<Rightarrow> (True, g\<lparr>IS_LOGGED_IN := True\<rparr>)
      | NoMarkers \<Rightarrow> (True, g)
      | ChallengeRaises \<Rightarrow> (False, g))"

subsection \<open>The fetcher\<close>

text \<open>How one pass through the body of the retry loop ends: with a \<open>return\<close>, or with the
  next iteration and the value \<open>use_selenium\<close> has by then.\<close>

datatype step = Return "html option" | Next bool

text \<open>The end of the loop body: \<open>RETRY_DELAY * (2 ** attempt) + random.uniform(1, 5)\<close>
  seconds of sleep, except after the last attempt.\<close>

definition backoff :: "world \<Rightarrow> nat \<Rightarrow> globals \<Rightarrow> globals" where
  "backoff w attempt g =
     (if attempt < MAX_RETRIES - 1
      then (case uniform w 1 5 g of
              (jitter, g') \<Rightarrow> log [Backoff (real (RETRY_DELAY * 2 ^ attempt) + jitter)] g')
      else g)"

text \<open>The handler of \<open>TimeoutException\<close> and \<open>WebDriverException\<close>.\<close>

definition browser_error :: "bool \<Rightarrow> globals \<Rightarrow> globals" where
  "browser_error refresh_ok g =
     (case DRIVER g of
        None \<Rightarrow> g
      | Some d \<Rightarrow> if refresh_ok then log [Refresh, Pause 5] g else log [Refresh] g)"

definition browser_attempt ::
  "world \<Rightarrow> string \<Rightarrow> bool \<Rightarrow> nat \<Rightarrow> nat \<Rightarrow> globals \<Rightarrow> (abort + step) \<times> globals" where
  "browser_attempt w url use_selenium attempt t g =
     (case setup_driver w False g of
        (Inl a, g1) \<Rightarrow> (Inl a, g1)
      | (Inr driver, g1) \<Rightarrow>
          let g2 = log [Fetch ViaBrowser url] (g1\<lparr>tick := t + 1\<rparr>) in
          (case browser w t url of
             BInterrupt \<Rightarrow> (Inl KeyboardInterrupt, g2)
           | GetRaises refresh_ok \<Rightarrow>
               (Inr (Next use_selenium), backoff w attempt (browser_error refresh_ok g2))
           | ErrorPage refresh_ok \<Rightarrow>
               (Inr (Next use_selenium), backoff w attempt (browser_error refresh_ok g2))
           | BOther \<Rightarrow> (Inr (Next use_selenium), backoff w attempt g2)
           | Loaded ch page \<Rightarrow>
               (case handle_login_challenge ch g2 of
                  (False, g3) \<Rightarrow>
                    if attempt < MAX_RETRIES - 1 then (Inr (Next use_selenium), backoff w attempt g3)
                    else (Inr (Return None), g3)
                | (True, g3) \<Rightarrow> (Inr (Return (Some page)), g3))))"

definition http_attempt ::
  "world \<Rightarrow> string \<Rightarrow> bool \<Rightarrow> nat \<Rightarrow> nat \<Rightarrow> globals \<Rightarrow> (abort + step) \<times> globals" where
  "http_attempt w url use_selenium attempt t g =
     (let g1 = log [Fetch ViaHttp url] (g\<lparr>tick := t + 1\<rparr>) in
      case http w t url of
        HInterrupt \<Rightarrow> (Inl KeyboardInterrupt, g1)
      | Status code page \<Rightarrow>
          if code = 200 then (Inr (Return (Some page)), g1)
          else (Inr (Next (if code = 403 then True else use_selenium)), backoff w attempt g1)
      | SSLError again \<Rightarrow>
          (case again of
             Some (code, page) \<Rightarrow>
               if code = 200 then (Inr (Return (Some page)), log [SslRetry] g1)
               else (Inr (Next use_selenium), backoff w attempt (log [SslRetry] g1))
           | None \<Rightarrow> (Inr (Next use_selenium), backoff w attempt (log [SslRetry] g1)))
      | ProxyError \<Rightarrow>
          (Inr (Next (if attempt < MAX_RETRIES - 1 \<and> \<not> use_selenium then True else use_selenium)),
           backoff w attempt g1)
      | RequestException connection_error \<Rightarrow>
          (Inr (Next (if connection_error \<and> \<not> use_selenium then True else use_selenium)),
           backoff w attempt g1)
      | HOther \<Rightarrow> (Inr (Next use_selenium), backoff w attempt g1))"

text \<open>One pass through the body of \<open>for attempt in range(MAX_RETRIES)\<close>. The attempt
  consults the world at the current tick and moves the tick on.\<close>

definition attempt_body ::
  "world \<Rightarrow> string \<Rightarrow> bool \<Rightarrow> nat \<Rightarrow> globals \<Rightarrow> (abort + step) \<times> globals" where
  "attempt_body w url use_selenium attempt g =
     (if use_selenium \<or> DRIVER g \<noteq> None then browser_attempt w url use_selenium attempt (tick g) g
      else http_attempt w url use_selenium attempt (tick g) g)"

fun retry_loop ::
  "world \<Rightarrow> string \<Rightarrow> bool \<Rightarrow> nat list \<Rightarrow> globals \<Rightarrow> (abort + html option) \<times> globals" where
  "retry_loop w url use_selenium [] g = (Inr None, g)"
| "retry_loop w url use_selenium (attempt # rest) g =
     (case attempt_body w url use_selenium attempt g of
        (Inl a, g') \<Rightarrow> (Inl a, g')
      | (Inr (Return r), g') \<Rightarrow> (Inr r, g')
      | (Inr (Next use_selenium'), g') \<Rightarrow> retry_loop w url use_selenium' rest g')"

definition make_request ::
  "world \<Rightarrow> string \<Rightarrow> bool \<Rightarrow> globals \<Rightarrow> (abort + html option) \<times> globals" where
  "make_request w url use_selenium g =
     retry_loop w url (if contains ''douban.com'' url \<and> \<not> use_selenium then True else use_selenium)
       [0..<MAX_RETRIES] g"

subsection \<open>Dates\<close>

text \<open>
  \<open>datetime.strptime\<close> for the three directives the script uses. The format becomes a
  regular expression, one group per directive with its alternatives tried in order; the
  expression is matched at the start of the text, with backtracking, and text left over
  after the match is an error, as is a date that does not exist. Without a time of day
  in the format, the result is midnight of a date: year, month and day.
\<close>

datatype directive = DY | Dm | Dd | Lit char

definition fmt_dash :: "directive list" where   \<comment> \<open>\<open>%Y-%m-%d\<close>\<close>
  "fmt_dash = [DY, Lit (CHR ''-''), Dm, Lit (CHR ''-''), Dd]"

definition fmt_dot :: "directive list" where    \<comment> \<open>\<open>%Y.%m.%d\<close>\<close>
  "fmt_dot = [DY, Lit (CHR ''.''), Dm, Lit (CHR ''.''), Dd]"

definition fmt_slash :: "directive list" where  \<comment> \<open>\<open>%Y/%m/%d\<close>\<close>
  "fmt_slash = [DY, Lit (CHR ''/''), Dm, Lit (CHR ''/''), Dd]"

definition fmt_plain :: "directive list" where  \<comment> \<open>\<open>%Y%m%d\<close>\<close>
  "fmt_plain = [DY, Dm, Dd]"

text \<open>One alternative of a group: the characters it takes must lie in the given sets.\<close>

fun alt :: "string list \<Rightarrow> string \<Rightarrow> (string \<times> string) list" where
  "alt [] s = [([], s)]"
| "alt (cls # rest) [] = []"
| "alt (cls # rest) (c # cs) =
     (if c \<in> set cls then map (\<lambda>(m, r). (c # m, r)) (alt rest cs) else [])"

text \<open>The ways a directive matches a prefix of the text, in the order the regular
  expression tries them: \<open>\d\d\d\d\<close> for \<open>%Y\<close>, \<open>1[0-2]|0[1-9]|[1-9]\<close> for \<open>%m\<close>,
  \<open>3[01]|[12]\d|0[1-9]|[1-9]| [1-9]\<close> for \<open>%d\<close>.\<close>

definition matches :: "directive \<Rightarrow> string \<Rightarrow> (string \<times> string) list" where
  "matches d s =
     (case d of
        DY \<Rightarrow> alt [''0123456789'', ''0123456789'', ''0123456789'', ''0123456789''] s
      | Dm \<Rightarrow> alt [''1'', ''012''] s @ alt [''0'', ''123456789''] s @ alt [''123456789''] s
      | Dd \<Rightarrow> alt [''3'', ''01''] s @ alt [''12'', ''0123456789''] s @ alt [''0'', ''123456789''] s
              @ alt [''123456789''] s @ alt ['' '', ''123456789''] s
      | Lit c \<Rightarrow> alt [[c]] s)"

text \<open>The first way, in that order, to match the whole format: the fields found, as
  year, month and day (1900, 1, 1 when a field has no directive), and the text left.\<close>

definition set_field :: "directive \<Rightarrow> string \<Rightarrow> int \<times> int \<times> int \<Rightarrow> int \<times> int \<times> int" where
  "set_field d m ymd =
     (case ymd of (y, mo, da) \<Rightarrow>
        (case d of
           DY \<Rightarrow> (dec_value m, mo, da)
         | Dm \<Rightarrow> (y, dec_value m, da)
         | Dd \<Rightarrow> (y, mo, dec_value (dropWhile (\<lambda>c. c = CHR '' '') m))
         | Lit c \<Rightarrow> ymd))"

fun first_match ::
  "directive list \<Rightarrow> int \<times> int \<times> int \<Rightarrow> string \<Rightarrow> ((int \<times> int \<times> int) \<times> string) option"
and try_alts ::
  "directive \<Rightarrow> directive list \<Rightarrow> int \<times> int \<times> int \<Rightarrow> (string \<times> string) list
     \<Rightarrow> ((int \<times> int \<times> int) \<times> string) option" where
  "first_match [] ymd s = Some (ymd, s)"
| "first_match (d # ds) ymd s = try_alts d ds ymd (matches d s)"
| "try_alts d ds ymd [] = None"
| "try_alts d ds ymd ((m, r) # others) =
     (case first_match ds (set_field d m ymd) r of
        Some res \<Rightarrow> Some res
      | None \<Rightarrow> try_alts d ds ymd others)"

definition is_leap :: "int \<Rightarrow> bool" where
  "is_leap y = (y mod 4 = 0 \<and> (y mod 100 \<noteq> 0 \<or> y mod 400 = 0))"

definition days_in_month :: "int \<Rightarrow> int \<Rightarrow> int" where
  "days_in_month y m =
     (if m = 2 then (if is_leap y then 29 else 28)
      else if m \<in> set [4, 6, 9, 11] then 30 else 31)"

definition strptime :: "string \<Rightarrow> directive list \<Rightarrow> py_error + int \<times> int \<times> int" where
  "strptime s fmt =
     (case first_match fmt (1900, 1, 1) s of
        None \<Rightarrow> Inl ValueError
      | Some ((y, m, d), rest) \<Rightarrow>
          if rest \<noteq> [] then Inl ValueError
          else if y < 1 \<or> m < 1 \<or> 12 < m \<or> d < 1 \<or> days_in_month y m < d then Inl ValueError
          else Inr (y, m, d))"

text \<open>\<open>strftime('%Y-%m-%d')\<close>: month and day in two digits; the year in four digits where
  the C library pads it, and as it is where it does not.\<close>

definition two_digits :: "int \<Rightarrow> string" where
  "two_digits n = (if n < 10 then CHR ''0'' # digits n else digits n)"

definition strftime :: "bool \<Rightarrow> int \<times> int \<times> int \<Rightarrow> string" where
  "strftime pad ymd =
     (case ymd of (y, m, d) \<Rightarrow>
        (if pad then replicate (4 - length (digits y)) (CHR ''0'') @ digits y
         else digits y)
        @ ''-'' @ two_digits m @ ''-'' @ two_digits d)"

text \<open>The order of two dates: comparing the keys compares the dates.\<close>

definition date_key :: "int \<times> int \<times> int \<Rightarrow> int" where
  "date_key ymd = (case ymd of (y, m, d) \<Rightarrow> y * 10000 + m * 100 + d)"

subsection \<open>The external id of a detail page\<close>

text \<open>\<open>re.search(r'(tt\d+)', href)\<close>: the leftmost \<open>tt\<close> that a digit follows, with all
  the digits after it.\<close>

fun search_tt :: "string \<Rightarrow> string option" where
  "search_tt [] = None"
| "search_tt (c # cs) =
     (if startswith (c # cs) ''tt'' \<and> takeWhile is_decimal (drop 1 cs) \<noteq> []
      then Some (''tt'' @ takeWhile is_decimal (drop 1 cs))
      else search_tt cs)"

text \<open>The first strategy: a \<open>span.pl\<close> whose text contains \<open>IMDb\<close>, followed by a text
  node that, stripped, starts with \<open>tt\<close>.\<close>

fun label_adjacent :: "(string \<times> sibling) list \<Rightarrow> string option" where
  "label_adjacent [] = None"
| "label_adjacent ((text, next_sibling) # spans) =
     (if contains ''IMDb'' text then
        (case next_sibling of
           Text imdb_text \<Rightarrow>
             if imdb_text \<noteq> [] \<and> startswith (strip imdb_text) ''tt'' then Some (strip imdb_text)
             else label_adjacent spans
         | Element \<Rightarrow> label_adjacent spans
         | NoSibling \<Rightarrow> label_adjacent spans)
      else label_adjacent spans)"

text \<open>The second strategy: the first anchor whose \<open>href\<close> contains
  \<open>imdb.com/title/tt\<close>, searched for \<open>tt\d+\<close>.\<close>

definition href_match :: "string list \<Rightarrow> string option" where
  "href_match hrefs =
     (case find (contains ''imdb.com/title/tt'') hrefs of
        None \<Rightarrow> None
      | Some href \<Rightarrow> search_tt href)"

text \<open>The third strategy: the first stripped string of the info section that is \<open>tt\<close>
  and at least two more characters, all of them digits for \<open>str.isdigit\<close>.\<close>

definition token_scan :: "string list \<Rightarrow> string option" where
  "token_scan texts =
     find (\<lambda>text. startswith text ''tt'' \<and> length text > 3 \<and> isdigit (drop 2 text)) texts"

text \<open>What \<open>get_imdb_id\<close> does with the page once it has it.\<close>

definition imdb_id_of_page :: "html \<Rightarrow> string option" where
  "imdb_id_of_page page =
     (case info page of
        None \<Rightarrow> None
      | Some info_section \<Rightarrow>
          (case label_adjacent (pl_spans info_section) of
             Some imdb_id \<Rightarrow> Some imdb_id
           | None \<Rightarrow>
               (case href_match (anchors page) of
                  Some m \<Rightarrow> Some m
                | None \<Rightarrow> token_scan (stripped_strings info_section))))"

definition get_imdb_id :: "world \<Rightarrow> string \<Rightarrow> globals \<Rightarrow> (abort + string option) \<times> globals" where
  "get_imdb_id w douban_url g =
     (case make_request w douban_url True g of
        (Inl a, g') \<Rightarrow> (Inl a, g')
      | (Inr None, g') \<Rightarrow> (Inr None, g')
      | (Inr (Some page), g') \<Rightarrow> (Inr (imdb_id_of_page page), g'))"

subsection \<open>The items of a collection page\<close>

text \<open>The rating of an item: from the first class of the rating \<open>span\<close>, or else from the
  first class of the star element that starts with \<open>rating\<close> and ends with \<open>-t\<close>. An
  exception here is caught by the handler around the item.\<close>

definition item_rating :: "item \<Rightarrow> py_error + int option" where
  "item_rating it =
     (case rating_span it of
        Some c \<Rightarrow> get_rating (Some c)
      | None \<Rightarrow>
          (case stars it of
             None \<Rightarrow> Inr None
           | Some classes \<Rightarrow>
               (case find (\<lambda>star_class. startswith star_class ''rating'' \<and> endswith star_class ''-t'') classes of
                  None \<Rightarrow> Inr None
                | Some star_class \<Rightarrow> get_rating (Some star_class))))"

text \<open>The date text of an item, today's date when it has none, brought to \<open>%Y-%m-%d\<close> if
  one of the three formats reads it.\<close>

definition normalized_date :: "world \<Rightarrow> item \<Rightarrow> string" where
  "normalized_date w it =
     (let comment_date =
            (case date_text it of
               None \<Rightarrow> strftime (pad_year w) (today w)
             | Some s \<Rightarrow> if s = [] then strftime (pad_year w) (today w) else s)
      in case strptime comment_date fmt_dash of
           Inr d \<Rightarrow> strftime (pad_year w) d
         | Inl e \<Rightarrow>
             (case strptime comment_date fmt_dot of
                Inr d \<Rightarrow> strftime (pad_year w) d
              | Inl e \<Rightarrow>
                  (case strptime comment_date fmt_slash of
                     Inr d \<Rightarrow> strftime (pad_year w) d
                   | Inl e \<Rightarrow> comment_date)))"

text \<open>Step 5 of the loop body: whether the item's date is at or before the cutoff;
  a \<open>ValueError\<close> of either \<open>strptime\<close> skips the item.\<close>

definition at_or_before_cutoff :: "world \<Rightarrow> string \<Rightarrow> item \<Rightarrow> py_error + bool" where
  "at_or_before_cutoff w start_date it =
     (case strptime (normalized_date w it) fmt_dash of
        Inl e \<Rightarrow> Inl e
      | Inr d \<Rightarrow>
          (case strptime start_date fmt_plain of
             Inl e \<Rightarrow> Inl e
           | Inr c \<Rightarrow> Inr (date_key d \<le> date_key c)))"

definition record_of :: "string \<Rightarrow> int option \<Rightarrow> string option \<Rightarrow> cell list" where
  "record_of t rating imdb =
     [CStr t, (case rating of None \<Rightarrow> CNone | Some r \<Rightarrow> CInt r),
      (case imdb of None \<Rightarrow> CNone | Some i \<Rightarrow> CStr i)]"

text \<open>The loop over the items of a page. It ends at the end of the page or at the
  \<open>break\<close> of the cutoff, which sets \<open>IS_OVER\<close>.\<close>

fun item_loop ::
  "world \<Rightarrow> item list \<Rightarrow> cell list list \<Rightarrow> globals \<Rightarrow> (abort + cell list list) \<times> globals" where
  "item_loop w [] rows g = (Inr rows, g)"
| "item_loop w (it # rest) rows g =
     (case title it of
        None \<Rightarrow> item_loop w rest rows g
      | Some t \<Rightarrow>
          (case link it of
             None \<Rightarrow> item_loop w rest rows g
           | Some douban_link \<Rightarrow>
               (case item_rating it of
                  Inl e \<Rightarrow> item_loop w rest rows g
                | Inr rating \<Rightarrow>
                    (case at_or_before_cutoff w (START_DATE g) it of
                       Inl e \<Rightarrow> item_loop w rest rows g
                     | Inr True \<Rightarrow> (Inr rows, g\<lparr>IS_OVER := True\<rparr>)
                     | Inr False \<Rightarrow>
                         (case uniform w 1 2 g of
                            (delay, g1) \<Rightarrow>
                              (case get_imdb_id w douban_link (log [Pause delay] g1) of
                                 (Inl a, g2) \<Rightarrow> (Inl a, g2)
                               | (Inr imdb, g2) \<Rightarrow>
                                   item_loop w rest (rows @ [record_of t rating imdb]) g2))))))"

definition get_info ::
  "world \<Rightarrow> string \<Rightarrow> globals \<Rightarrow> (abort + cell list list option) \<times> globals" where
  "get_info w url g =
     (case make_request w url False g of
        (Inl a, g1) \<Rightarrow> (Inl a, g1)
      | (Inr None, g1) \<Rightarrow> (Inr None, g1)
      | (Inr (Some page), g1) \<Rightarrow>
          if items page = [] then (Inr None, g1)
          else (case item_loop w (items page) [] g1 of
                  (Inl a, g2) \<Rightarrow> (Inl a, g2)
                | (Inr rows, g2) \<Rightarrow> (Inr (Some rows), g2)))"

subsection \<open>The pages of a collection and the export\<close>

definition collection_url :: "string \<Rightarrow> string" where
  "collection_url user_id =
     (let url = ''https://movie.douban.com/people/'' @ user_id @ ''/collect''
      in if \<not> contains ''mode=grid'' url
         then url @ ''?sort=time&rating=all&filter=all&mode=grid'' else url)"

definition page_url :: "string \<Rightarrow> nat \<Rightarrow> string" where
  "page_url user_id page =
     ''https://movie.douban.com/people/'' @ user_id @ ''/collect?start=''
       @ str_of_int (int ((page - 1) * 15)) @ ''&sort=time&rating=all&filter=all&mode=grid''"

text \<open>The highest page number among the link texts; \<open>int\<close> may refuse a text that
  \<open>isdigit\<close> accepts.\<close>

fun highest_page :: "string list \<Rightarrow> int \<Rightarrow> py_error + int" where
  "highest_page [] max_page = Inr max_page"
| "highest_page (text # links) max_page =
     (if isdigit text then
        (case int_of_str text of
           Inl e \<Rightarrow> Inl e
         | Inr page_num \<Rightarrow> highest_page links (if page_num > max_page then page_num else max_page))
      else highest_page links max_page)"

text \<open>\<open>list(url_generator(user_id))\<close>\<close>

definition url_generator :: "world \<Rightarrow> string \<Rightarrow> globals \<Rightarrow> (abort + string list) \<times> globals" where
  "url_generator w user_id g =
     (let url = collection_url user_id in
      case make_request w url False g of
        (Inl a, g1) \<Rightarrow> (Inl a, g1)
      | (Inr None, g1) \<Rightarrow> (Inr [url], g1)
      | (Inr (Some page), g1) \<Rightarrow>
          (case paginator page of
             None \<Rightarrow> (Inr [url], g1)
           | Some page_links \<Rightarrow>
               if page_links = [] then (Inr [url], g1)
               else (case highest_page page_links 1 of
                       Inl e \<Rightarrow> (Inr [url], g1)
                     | Inr max_page \<Rightarrow> (Inr (map (page_url user_id) [1..<nat max_page + 1]), g1))))"

text \<open>The loop of \<open>export\<close> over the page addresses.\<close>

fun export_loop ::
  "world \<Rightarrow> string list \<Rightarrow> cell list list \<Rightarrow> globals \<Rightarrow> (abort + cell list list) \<times> globals" where
  "export_loop w [] rows g = (Inr rows, g)"
| "export_loop w (url # urls) rows g =
     (if IS_OVER g then (Inr rows, g)
      else
        (case get_info w url g of
           (Inl a, g1) \<Rightarrow> (Inl a, g1)
         | (Inr page_info, g1) \<Rightarrow>
             export_loop w urls
               (case page_info of None \<Rightarrow> rows | Some page_rows \<Rightarrow> rows @ page_rows)
               (if \<not> IS_OVER g1
                then (case uniform w 2 5 g1 of (delay, g2) \<Rightarrow> log [Pause delay] g2)
                else g1)))"

definition export :: "world \<Rightarrow> string \<Rightarrow> globals \<Rightarrow> (abort + unit) \<times> globals" where
  "export w user_id g =
     (case url_generator w user_id g of
        (Inl a, g1) \<Rightarrow> (Inl a, g1)
      | (Inr urls, g1) \<Rightarrow>
          (case export_loop w urls [] g1 of
             (Inl a, g2) \<Rightarrow> (Inl a, g2)
           | (Inr rows, g2) \<Rightarrow>
               if rows = [] then (Inr (), g2)
               else (Inr (), g2\<lparr>movie_csv := Some (writerows rows)\<rparr>)))"

definition check_user_exist :: "world \<Rightarrow> string \<Rightarrow> globals \<Rightarrow> (abort + bool) \<times> globals" where
  "check_user_exist w user_id g =
     (case make_request w (''https://movie.douban.com/people/'' @ user_id @ ''/'') False g of
        (Inl a, g1) \<Rightarrow> (Inl a, g1)
      | (Inr None, g1) \<Rightarrow> (Inr False, g1)
      | (Inr (Some page), g1) \<Rightarrow> (Inr (\<not> not_found_title page), g1))"

subsection \<open>The exporter's entry point\<close>

record args =
  user_id :: string
  start_date :: string
  visible :: bool
  manual_login :: bool
  no_cache :: bool

text \<open>How the process ends: with an exit status, or killed by an interrupt nothing
  handles.\<close>

datatype ending = Exit nat | Interrupted

definition ending_of :: "abort \<Rightarrow> ending" where
  "ending_of a = (case a of SystemExit n \<Rightarrow> Exit n | KeyboardInterrupt \<Rightarrow> Interrupted)"

text \<open>The body of the \<open>try\<close> statement of the entry point. Besides the two aborts, an
  exception of the manual login leaves it; the handlers of the \<open>try\<close> print and go on to
  the \<open>finally\<close> clause.\<close>

definition session :: "world \<Rightarrow> args \<Rightarrow> globals \<Rightarrow> (abort + unit) \<times> globals" where
  "session w a g =
     (case setup_driver w (\<not> visible a) g of
        (Inl e, g1) \<Rightarrow> (Inl e, g1)
      | (Inr driver, g1) \<Rightarrow>
          (case (if \<not> no_cache a then load_cookies w g1 else (False, g1)) of
             (True, g2) \<Rightarrow> export w (user_id a) g2
           | (False, g2) \<Rightarrow>
               if manual_login a then
                 (case manual w of
                    ManualRaises \<Rightarrow> (Inr (), g2)
                  | ManualNotDetected \<Rightarrow> export w (user_id a) g2
                  | ManualOk \<Rightarrow> export w (user_id a) (save_cookies (g2\<lparr>IS_LOGGED_IN := True\<rparr>)))
               else export w (user_id a) g2))"

definition exporter_main :: "world \<Rightarrow> args \<Rightarrow> globals \<Rightarrow> ending \<times> globals" where
  "exporter_main w a g =
     (let g0 = (if start_date a \<noteq> [] then g\<lparr>START_DATE := start_date a\<rparr> else g) in
      case check_user_exist w (user_id a) g0 of
        (Inl e, g1) \<Rightarrow> (ending_of e, g1)
      | (Inr False, g1) \<Rightarrow> (Exit 1, g1)
      | (Inr True, g1) \<Rightarrow>
          (case session w a g1 of
             (Inl (SystemExit n), g2) \<Rightarrow> (Exit n, quit_driver g2)
           | (Inl KeyboardInterrupt, g2) \<Rightarrow> (Exit 0, quit_driver g2)
           | (Inr u, g2) \<Rightarrow> (Exit 0, quit_driver g2)))"

subsection \<open>Notions the statements about the fetcher use\<close>

text \<open>An attempt that ends in a transport error: in the browser, the page does not load
  or shows a connection error; over HTTP, the call raises a \<open>RequestException\<close> (an
  \<open>SSLError\<close> whose second call raises too, a \<open>ProxyError\<close>, or another one).\<close>

definition browser_transport_error :: "browser_outcome \<Rightarrow> bool" where
  "browser_transport_error b =
     (case b of GetRaises r \<Rightarrow> True | ErrorPage r \<Rightarrow> True | _ \<Rightarrow> False)"

definition http_transport_error :: "http_outcome \<Rightarrow> bool" where
  "http_transport_error h =
     (case h of SSLError None \<Rightarrow> True | ProxyError \<Rightarrow> True | RequestException c \<Rightarrow> True
      | _ \<Rightarrow> False)"

text \<open>The outcomes of an HTTP attempt after which the script sets \<open>use_selenium\<close>.\<close>

definition escalates :: "http_outcome \<Rightarrow> bool" where
  "escalates h =
     (case h of Status code page \<Rightarrow> code = 403 | ProxyError \<Rightarrow> True
      | RequestException c \<Rightarrow> c | _ \<Rightarrow> False)"

text \<open>The attempts and the delays between them, among the events.\<close>

definition attempt_or_delay :: "event \<Rightarrow> bool" where
  "attempt_or_delay e = (case e of Fetch p u \<Rightarrow> True | Backoff d \<Rightarrow> True | _ \<Rightarrow> False)"

text \<open>The events a call adds to the log.\<close>

definition new_events :: "globals \<Rightarrow> globals \<Rightarrow> event list" where
  "new_events g g' = drop (length (trace g)) (trace g')"

text \<open>Pages and worlds for the examples: a world in which every attempt meets the same
  outcome, Chrome starts, and \<open>random.random()\<close> gives one half.\<close>

definition blank_page :: html where
  "blank_page = \<lparr>not_found_title = False, paginator = None, items = [], info = None, anchors = []\<rparr>"

definition constant_world :: "browser_outcome \<Rightarrow> http_outcome \<Rightarrow> world" where
  "constant_world b h =
     \<lparr>chrome_starts = (\<lambda>t. True), browser = (\<lambda>t url. b), http = (\<lambda>t url. h),
      random = (\<lambda>t. 1 / 2), today = (2024, 1, 15), pad_year = True,
      cookies = NoCookieFile, manual = ManualNotDetected\<rparr>"

text \<open>A host that is down, and a host that serves a blank page to every request.\<close>

definition world_down :: world where
  "world_down = constant_world (GetRaises True) ProxyError"

definition world_up :: world where
  "world_up = constant_world (Loaded NoMarkers blank_page) (Status 200 blank_page)"

text \<open>A host that answers every HTTP call with status 403 and loads in the browser.\<close>

definition world_forbidden :: world where
  "world_forbidden = constant_world (Loaded NoMarkers blank_page) (Status 403 blank_page)"

subsection \<open>Pages for the examples of the external id\<close>

text \<open>A detail page whose info section has no IMDb label, with a link to the
  destination site; and a page with the same link and no info section.\<close>

definition linked_page :: html where
  "linked_page = blank_page
     \<lparr>info := Some \<lparr>pl_spans = [(''Director'', Element)], stripped_strings = [''Director'', ''Ridley Scott'']\<rparr>,
      anchors := [''https://movie.douban.com/'', ''https://www.imdb.com/title/tt0078748/'']\<rparr>"

definition bare_page :: html where
  "bare_page = blank_page\<lparr>anchors := [''https://www.imdb.com/title/tt0078748/'']\<rparr>"

definition world_serving :: "html \<Rightarrow> world" where
  "world_serving page = constant_world (Loaded NoMarkers page) (Status 200 page)"

subsection \<open>Notions the statements about the cutoff use\<close>

text \<open>The date an item shows: its date text, or today's date when it has none, read in
  the first of the three formats that accepts it.\<close>

definition shown_date :: "world \<Rightarrow> item \<Rightarrow> (int \<times> int \<times> int) option" where
  "shown_date w it =
     (let comment_date =
            (case date_text it of
               None \<Rightarrow> strftime (pad_year w) (today w)
             | Some s \<Rightarrow> if s = [] then strftime (pad_year w) (today w) else s)
      in case strptime comment_date fmt_dash of
           Inr d \<Rightarrow> Some d
         | Inl e \<Rightarrow>
             (case strptime comment_date fmt_dot of
                Inr d \<Rightarrow> Some d
              | Inl e \<Rightarrow>
                  (case strptime comment_date fmt_slash of
                     Inr d \<Rightarrow> Some d
                   | Inl e \<Rightarrow> None)))"

text \<open>The order of the calendar: by year, then by month, then by day.\<close>

definition on_or_before :: "int \<times> int \<times> int \<Rightarrow> int \<times> int \<times> int \<Rightarrow> bool" where
  "on_or_before a b =
     (case a of (y, m, d) \<Rightarrow>
        (case b of (y', m', d') \<Rightarrow> y < y' \<or> (y = y' \<and> (m < m' \<or> (m = m' \<and> d \<le> d')))))"

text \<open>An item at which the loop over a page stops: it has a title and a link, and the
  script's own comparison says that its date is at or before the cutoff. That comparison
  prints the date the item shows as \<open>%Y-%m-%d\<close>, reads the print back and reads the cutoff
  as \<open>%Y%m%d\<close>; it has no result, and the item is skipped, when one of the two readings
  fails: for a date text in none of the three formats, for a date before the year 1000
  where the C library prints the year without padding, and for a cutoff that is no date.
  An item for which a record is emitted: it has a title and a link, and the comparison
  says that its date is after the cutoff.\<close>

definition stops_at :: "world \<Rightarrow> string \<Rightarrow> item \<Rightarrow> bool" where
  "stops_at w cutoff it =
     (title it \<noteq> None \<and> link it \<noteq> None \<and> at_or_before_cutoff w cutoff it = Inr True)"

definition emitted :: "world \<Rightarrow> string \<Rightarrow> item \<Rightarrow> bool" where
  "emitted w cutoff it =
     (title it \<noteq> None \<and> link it \<noteq> None \<and> at_or_before_cutoff w cutoff it = Inr False)"

text \<open>A world in which the browser loads, for each address, the page a table gives; an
  item with a title, a link and a date; and two collection pages: on the first, the
  dates fall and the second item lies on the cutoff date of 2005-05-02.\<close>

definition world_of_pages :: "(string \<Rightarrow> html) \<Rightarrow> world" where
  "world_of_pages pages =
     \<lparr>chrome_starts = (\<lambda>t. True), browser = (\<lambda>t url. Loaded NoMarkers (pages url)),
      http = (\<lambda>t url. Status 200 (pages url)),
      random = (\<lambda>t. 1 / 2), today = (2024, 1, 15), pad_year = True,
      cookies = NoCookieFile, manual = ManualNotDetected\<rparr>"

definition movie :: "string \<Rightarrow> string \<Rightarrow> string \<Rightarrow> item" where
  "movie t class d =
     \<lparr>title = Some t, link = Some (''https://movie.douban.com/subject/'' @ t @ ''/''),
      rating_span = Some class, stars = None, date_text = Some d\<rparr>"

definition page_one :: html where
  "page_one = blank_page
     \<lparr>items := [movie ''Alien'' ''rating5-t'' ''2024-03-01'',
                 movie ''Brazil'' ''rating4-t'' ''2005-05-02'',
                 movie ''Casablanca'' ''rating3-t'' ''2005-01-01'']\<rparr>"

text \<open>The same dates, but the block on the cutoff date has no title element, and it is
  the last of its page.\<close>

definition page_untitled :: html where
  "page_untitled = blank_page
     \<lparr>items := [movie ''Alien'' ''rating5-t'' ''2024-03-01'',
                 (movie ''Brazil'' ''rating4-t'' ''2005-05-02'')\<lparr>title := None\<rparr>]\<rparr>"

definition page_two :: html where
  "page_two = blank_page\<lparr>items := [movie ''Dune'' ''rating2-t'' ''2004-12-31'']\<rparr>"

text \<open>A page whose first item shows a date before the year 1000 and whose second item
  lies after the cutoff; and a world whose C library prints a year without padding.\<close>

definition page_old :: html where
  "page_old = blank_page
     \<lparr>items := [movie ''Edda'' ''rating5-t'' ''0999-01-01'',
                 movie ''Alien'' ''rating5-t'' ''2024-03-01'']\<rparr>"

definition unpadded :: "world \<Rightarrow> world" where
  "unpadded w = w\<lparr>pad_year := False\<rparr>"

definition site :: "html \<Rightarrow> string \<Rightarrow> html" where
  "site first url =
     (if url = ''https://movie.douban.com/people/1/collect?start=0'' then first
      else if url = ''https://movie.douban.com/people/1/collect?start=15'' then page_two
      else blank_page)"

subsection \<open>A user that does not exist\<close>

text \<open>The page the source site serves for a profile that does not exist, and the
  arguments of a run for such a user.\<close>

definition missing_page :: html where
  "missing_page = blank_page\<lparr>not_found_title := True\<rparr>"

definition nobody :: args where
  "nobody = \<lparr>user_id = ''nobody'', start_date = ''20050502'', visible = False,
     manual_login = False, no_cache = False\<rparr>"

subsection \<open>Notions the statements about the CSV file use\<close>

text \<open>The reader seen from the characters of the file: every line feed is followed by
  the end-of-line signal, and a row is complete when that signal leaves the parser in
  \<open>START_RECORD\<close>.\<close>

fun with_eol :: "string \<Rightarrow> char option list" where
  "with_eol [] = []"
| "with_eol (c # cs) = (if c = LF then Some c # None # with_eol cs else Some c # with_eol cs)"

fun feed_chars :: "parser \<Rightarrow> string \<Rightarrow> py_error + parser" where
  "feed_chars p [] = Inr p"
| "feed_chars p (c # cs) =
     (case parse_process_char p (Some c) of Inl e \<Rightarrow> Inl e | Inr q \<Rightarrow> feed_chars q cs)"

fun stream_reader :: "parser \<Rightarrow> char option list \<Rightarrow> string list list \<times> py_error option" where
  "stream_reader p [] =
     (if pfield p \<noteq> [] \<or> pst p = IN_QUOTED_FIELD then ([pfields (parse_save_field p)], None)
      else ([], None))"
| "stream_reader p (x # xs) =
     (case parse_process_char p x of
        Inl e \<Rightarrow> ([], Some e)
      | Inr q \<Rightarrow>
          if x = None \<and> pst q = START_RECORD
          then (case stream_reader parse_reset xs of (rows, e) \<Rightarrow> (pfields q # rows, e))
          else stream_reader q xs)"

text \<open>The doubling of the quote characters inside a quoted field.\<close>

definition doubled :: "string \<Rightarrow> string" where
  "doubled s = concat (map (\<lambda>c. if c = DQUOTE then [c, c] else [c]) s)"

text \<open>A cell that survives the file: its text has no carriage return and is within the
  reader's field limit.\<close>

definition plain_cell :: "cell \<Rightarrow> bool" where
  "plain_cell c = (CR \<notin> set (cell_text c) \<and> int (length (cell_text c)) \<le> field_limit)"

section \<open>Properties of the string and integer functions\<close>

lemma int_of_str_error: "int_of_str s = Inl e \<Longrightarrow> e = ValueError"
  by (auto simp: int_of_str_def Let_def split: option.splits if_splits)

lemma int_of_str_empty: "int_of_str [] = Inl ValueError"
  by (simp add: int_of_str_def)

lemma small_ints: "map str_of_int [- 2..2] = [''-2'', ''-1'', ''0'', ''1'', ''2'']"
  by code_simp

lemma int_of_small:
  "int_of_str ''-2'' = Inr (- 2)" "int_of_str ''-1'' = Inr (- 1)" "int_of_str ''0'' = Inr 0"
  "int_of_str ''1'' = Inr 1" "int_of_str ''2'' = Inr 2"
  by code_simp+

lemma str_small:
  "str_of_int (- 2) = ''-2''" "str_of_int (- 1) = ''-1''" "str_of_int 0 = ''0''"
  "str_of_int 1 = ''1''" "str_of_int 2 = ''2''"
  by code_simp+

lemma small_cases: "k \<in> set [- 2..2] \<Longrightarrow> k = - 2 \<or> k = - 1 \<or> k = 0 \<or> k = 1 \<or> (k::int) = 2"
  by (simp add: upto.simps)

section \<open>The rating read from a CSS class\<close>

text \<open>
  Claim C10, as the code has it. \<open>get_rating\<close> never raises and returns \<open>None\<close> or an
  integer from 1 to 5; a class name of the documented form \<open>ratingN-t\<close> gives \<open>N\<close>; and a
  non-empty class name gives \<open>None\<close> exactly when what is left of it, once every
  \<open>rating\<close> and then every \<open>-t\<close> is deleted, is not read by \<open>int\<close> as an integer from
  1 to 5. The function does not check that the class name has the documented form.
\<close>

theorem get_rating_total:
  "(\<exists>r. get_rating rc = Inr r \<and> (r = None \<or> (\<exists>n. r = Some n \<and> 1 \<le> n \<and> n \<le> 5)))
   \<and> (canonical_class s \<longrightarrow> get_rating (Some s) = Inr (Some (int (digit_val (s ! 6)))))
   \<and> (s \<noteq> [] \<longrightarrow>
        (get_rating (Some s) = Inr None) =
        (\<forall>n. int_of_str (replace ''-t'' [] (replace ''rating'' [] s)) = Inr n \<longrightarrow> n < 1 \<or> 5 < n))"
proof (intro conjI impI)
  show "\<exists>r. get_rating rc = Inr r \<and> (r = None \<or> (\<exists>n. r = Some n \<and> 1 \<le> n \<and> n \<le> 5))"
    by (cases rc) (auto simp: get_rating_def split: sum.splits py_error.splits dest: int_of_str_error)
next
  assume "canonical_class s"
  then consider "s = ''rating1-t''" | "s = ''rating2-t''" | "s = ''rating3-t''"
    | "s = ''rating4-t''" | "s = ''rating5-t''"
    by (auto simp: canonical_class_def)
  then show "get_rating (Some s) = Inr (Some (int (digit_val (s ! 6))))"
  proof cases
    case 1 show ?thesis unfolding 1 by code_simp
  next
    case 2 show ?thesis unfolding 2 by code_simp
  next
    case 3 show ?thesis unfolding 3 by code_simp
  next
    case 4 show ?thesis unfolding 4 by code_simp
  next
    case 5 show ?thesis unfolding 5 by code_simp
  qed
next
  assume "s \<noteq> []"
  then show "(get_rating (Some s) = Inr None) =
    (\<forall>n. int_of_str (replace ''-t'' [] (replace ''rating'' [] s)) = Inr n \<longrightarrow> n < 1 \<or> 5 < n)"
    by (cases "int_of_str (replace ''-t'' [] (replace ''rating'' [] s))")
       (auto simp: get_rating_def dest: int_of_str_error)
qed

theorem get_rating_total_witness:
  "get_rating (Some ''rating4-t'') = Inr (Some 4) \<and> get_rating (Some ''rating6-t'') = Inr None"
proof -
  have c: "canonical_class ''rating4-t''" by (simp add: canonical_class_def)
  have d: "int (digit_val (''rating4-t'' ! 6)) = 4" by code_simp
  have n: "''rating6-t'' \<noteq> []" by simp
  have i: "int_of_str (replace ''-t'' [] (replace ''rating'' [] ''rating6-t'')) = Inr 6" by code_simp
  show ?thesis
    using get_rating_total [of "Some ''rating4-t''" "''rating4-t''"]
      get_rating_total [of "Some ''rating6-t''" "''rating6-t''"] c d n i
    by simp
qed

text \<open>The claim as the specification words it fails: \<open>4\<close> is not a class name of the
  documented form, and it yields the rating 4.\<close>

theorem get_rating_lenient: "\<not> canonical_class ''4'' \<and> get_rating (Some ''4'') = Inr (Some 4)"
proof
  show "\<not> canonical_class ''4''" by (simp add: canonical_class_def)
  show "get_rating (Some ''4'') = Inr (Some 4)" by code_simp
qed

section \<open>The importer's rows\<close>

text \<open>
  Claim C1. For a row whose rating field \<open>int\<close> reads as \<open>source\<close> between 1 and 5, and an
  adjustment between -2 and 2, the rating \<open>mark\<close> computes is \<open>source * 2 + adjustment\<close>, it
  lies between 0 and 12, and it is the star \<open>mark\<close> selects on the destination site when
  the row has an id and every interaction succeeds. Nothing clamps it.
\<close>

theorem rating_conversion:
  assumes "py_index line 1 = Inr f" and "int_of_str f = Inr source"
    and "1 \<le> source" and "source \<le> 5" and "- 2 \<le> adj" and "adj \<le> 2"
  shows "movie_rate line adj = Inr (source * 2 + adj)
    \<and> 0 \<le> source * 2 + adj \<and> source * 2 + adj \<le> 12
    \<and> (length line \<ge> 3 \<and> startswith (line ! 2) ''tt'' \<longrightarrow>
         StarClick (source * 2 + adj) \<in> set (ui_log (process_line False adj ui_ok line st)))"
proof (intro conjI impI)
  show r: "movie_rate line adj = Inr (source * 2 + adj)"
    using assms(1,2) by (simp add: movie_rate_def)
  show "0 \<le> source * 2 + adj" using assms(3,5) by simp
  show "source * 2 + adj \<le> 12" using assms(4,6) by simp
  assume l: "length line \<ge> 3 \<and> startswith (line ! 2) ''tt''"
  then have id: "line ! 2 \<noteq> []" by (auto simp: startswith_def)
  have f: "f \<noteq> []" using assms(2) by (auto simp: int_of_str_empty)
  from l have n: "0 < length line" "1 < length line" "2 < length line" by auto
  show "StarClick (source * 2 + adj) \<in> set (ui_log (process_line False adj ui_ok line st))"
    using l id f r assms(1) n
    by (simp add: process_line_def try_line_def py_index_def rate_on_imdb_def ui_ok_def act_def Let_def)
qed

theorem rating_conversion_witness:
  "movie_rate [''Alien'', ''5'', ''tt0078748''] 2 = Inr 12
   \<and> movie_rate [''Alien'', ''1'', ''tt0078748''] (- 2) = Inr 0
   \<and> StarClick 9 \<in> set (ui_log (process_line False (- 1) ui_ok [''Alien'', ''5'', ''tt0078748''] mark_init))"
proof -
  have i: "int_of_str ''5'' = Inr 5" "int_of_str ''1'' = Inr 1" by code_simp+
  have s: "startswith ''tt0078748'' ''tt''" by (simp add: startswith_def)
  show ?thesis
    using rating_conversion [of "[''Alien'', ''5'', ''tt0078748'']" "''5''" 5 2 mark_init]
      rating_conversion [of "[''Alien'', ''1'', ''tt0078748'']" "''1''" 1 "- 2" mark_init]
      rating_conversion [of "[''Alien'', ''5'', ''tt0078748'']" "''5''" 5 "- 1" mark_init] i s
    by (simp add: py_index_def)
qed

text \<open>
  Claim C5, as the code has it. A row with an empty rating field is skipped and leaves
  no trace: it joins no list and nothing is asked of the site. A row whose rating field
  \<open>int\<close> reads as an integer, and whose id is empty or does not start with \<open>tt\<close>, has its
  title appended to the not-found list, and nothing is asked of the site for it.
\<close>

theorem skipped_rows:
  "(py_index line 1 = Inr [] \<longrightarrow> process_line is_unmark adj u line st = st)
   \<and> (length line \<ge> 3 \<and> int_of_str (line ! 1) = Inr r
        \<and> (line ! 2 = [] \<or> \<not> startswith (line ! 2) ''tt'') \<longrightarrow>
      process_line is_unmark adj u line st = st\<lparr>can_not_found := can_not_found st @ [line ! 0]\<rparr>
      \<and> ui_log (process_line is_unmark adj u line st) = ui_log st)"
proof (intro conjI impI)
  assume "py_index line 1 = Inr []"
  then show "process_line is_unmark adj u line st = st"
    by (simp add: process_line_def try_line_def)
next
  assume a: "length line \<ge> 3 \<and> int_of_str (line ! 1) = Inr r
    \<and> (line ! 2 = [] \<or> \<not> startswith (line ! 2) ''tt'')"
  then have n: "line ! 1 \<noteq> []" by (auto simp: int_of_str_empty)
  from a have l: "0 < length line" "1 < length line" "2 < length line" by auto
  from a n l show p: "process_line is_unmark adj u line st
      = st\<lparr>can_not_found := can_not_found st @ [line ! 0]\<rparr>"
    by (auto simp: process_line_def try_line_def py_index_def movie_rate_def)
  show "ui_log (process_line is_unmark adj u line st) = ui_log st"
    unfolding p by simp
qed

theorem skipped_rows_witness:
  "process_line False (- 1) ui_ok [''Unknown Film'', ''4'', ''''] mark_init
     = mark_init\<lparr>can_not_found := [''Unknown Film'']\<rparr>
   \<and> process_line False (- 1) ui_ok [''No Rating'', '''', ''tt0078748''] mark_init = mark_init"
proof -
  have i: "int_of_str ''4'' = Inr 4" by code_simp
  show ?thesis
    using skipped_rows [of "[''Unknown Film'', ''4'', '''']" False "- 1" ui_ok mark_init 4]
      skipped_rows [of "[''No Rating'', '''', ''tt0078748'']" False "- 1" ui_ok mark_init 4] i
    by (simp add: py_index_def mark_init_def)
qed

text \<open>The claim as the specification words it fails: a row with an empty rating field
  is skipped, and it is not put on the not-found list.\<close>

theorem empty_rating_not_listed:
  "''Unknown Film'' \<notin> set (can_not_found (process_line False (- 1) ui_ok [''Unknown Film'', '''', ''''] mark_init))"
  by (simp add: process_line_def try_line_def py_index_def mark_init_def)

section \<open>The importer's arguments\<close>

text \<open>
  Claim C8. With \<open>movie.csv\<close> present: without an argument the importer marks with the
  adjustment -1; with \<open>unmark\<close> as its first argument it removes ratings; with the decimal
  numeral of an integer from -2 to 2 it marks with that adjustment; and for every other
  first argument, also one that \<open>int\<close> would read as an integer from -2 to 2, it prints the
  usage message and exits, and \<open>mark\<close> is not called. Arguments after the first are not
  looked at.
\<close>

theorem main_arguments:
  "main (Some content) [prog] lg us = mark False (- 1) lg us content
   \<and> main (Some content) (prog # ''unmark'' # rest) lg us = mark True (- 1) lg us content
   \<and> (k \<in> set [- 2..2] \<longrightarrow>
        main (Some content) (prog # str_of_int k # rest) lg us = mark False k lg us content)
   \<and> (a \<noteq> ''unmark'' \<and> a \<notin> set (map str_of_int [- 2..2]) \<longrightarrow>
        main (Some content) (prog # a # rest) lg us = Usage)"
proof (intro conjI impI)
  show "main (Some content) [prog] lg us = mark False (- 1) lg us content"
    by (simp add: main_def)
  show "main (Some content) (prog # ''unmark'' # rest) lg us = mark True (- 1) lg us content"
    by (simp add: main_def)
  show "main (Some content) (prog # str_of_int k # rest) lg us = mark False k lg us content"
    if "k \<in> set [- 2..2]"
    using small_cases [OF that] by (auto simp: main_def str_small int_of_small)
  show "main (Some content) (prog # a # rest) lg us = Usage"
    if "a \<noteq> ''unmark'' \<and> a \<notin> set (map str_of_int [- 2..2])"
    using that unfolding small_ints by (simp add: main_def)
qed

theorem main_arguments_witness:
  "int_of_str ''+1'' = Inr 1
   \<and> main (Some ''Alien,5,tt0078748'') [''csv_to_imdb.py'', ''+1''] LoggedIn (\<lambda>i. ui_ok) = Usage
   \<and> main (Some ''Alien,5,tt0078748'') [''csv_to_imdb.py'', ''2''] LoggedIn (\<lambda>i. ui_ok)
       = mark False 2 LoggedIn (\<lambda>i. ui_ok) ''Alien,5,tt0078748''"
proof -
  have a: "''+1'' \<noteq> ''unmark'' \<and> ''+1'' \<notin> set (map str_of_int [- 2..2])"
    unfolding small_ints by simp
  have k: "(2::int) \<in> set [- 2..2]" by (simp add: upto.simps)
  have i: "int_of_str ''+1'' = Inr 1" by code_simp
  show ?thesis
    using main_arguments [of "''Alien,5,tt0078748''" "''csv_to_imdb.py''" LoggedIn "\<lambda>i. ui_ok" "[]" 2 "''+1''"] a k i
    by (simp add: str_small)
qed

section \<open>The fetcher\<close>

lemma backoff_unfold:
  "backoff w attempt g =
     (if attempt < 2
      then log [Backoff (real (5 * 2 ^ attempt) + (1 + 4 * random w (tick g)))] (g\<lparr>tick := tick g + 1\<rparr>)
      else g)"
  by (simp add: backoff_def uniform_def MAX_RETRIES_def RETRY_DELAY_def)

lemma log_simps [simp]:
  "trace (log es g) = trace g @ es" "tick (log es g) = tick g" "DRIVER (log es g) = DRIVER g"
  "IS_OVER (log es g) = IS_OVER g" "START_DATE (log es g) = START_DATE g"
  by (simp_all add: log_def)

lemma new_events_append [simp]: "trace g' = trace g @ es \<Longrightarrow> new_events g g' = es"
  by (simp add: new_events_def)

lemma attempts: "[0..<MAX_RETRIES] = [0, 1, 2]"
  by code_simp

text \<open>One attempt that ends in a transport error goes on to the next one.\<close>

lemma attempt_transport_error:
  assumes "chrome_starts w (tick g)" and "browser_transport_error (browser w (tick g) url)"
    and "http_transport_error (http w (tick g) url)"
  shows "\<exists>u' p g' es. attempt_body w url u attempt g = (Inr (Next u'), g')
     \<and> trace g' = trace g @ es
     \<and> filter attempt_or_delay es
         = Fetch p url #
             (if attempt < 2 then [Backoff (real (5 * 2 ^ attempt) + (1 + 4 * random w (tick g + 1)))] else [])
     \<and> tick g' = tick g + (if attempt < 2 then 2 else 1)"
proof (cases "u \<or> DRIVER g \<noteq> None")
  case True
  from assms(2) obtain r where b: "browser w (tick g) url = GetRaises r \<or> browser w (tick g) url = ErrorPage r"
    by (auto simp: browser_transport_error_def split: browser_outcome.splits)
  show ?thesis
    using True assms(1) b
    by (auto simp: attempt_body_def browser_attempt_def setup_driver_def Let_def backoff_unfold
        browser_error_def attempt_or_delay_def split: option.splits)
next
  case False
  from assms(3) have h: "http w (tick g) url = SSLError None \<or> http w (tick g) url = ProxyError
      \<or> (\<exists>c. http w (tick g) url = RequestException c)"
    by (auto simp: http_transport_error_def split: http_outcome.splits option.splits)
  show ?thesis
    using False h
    by (auto simp: attempt_body_def http_attempt_def Let_def backoff_unfold attempt_or_delay_def)
qed

text \<open>
  Claim C3. When Chrome starts and every attempt, in the browser or over HTTP, ends in a
  transport error, \<open>make_request\<close> returns \<open>None\<close> (it does not raise) after three
  attempts, and the attempts and delays it logs are: the first attempt, a sleep of
  \<open>RETRY_DELAY * 2 ** 0\<close> seconds plus a random number between 1 and 5, the second
  attempt, a sleep of \<open>RETRY_DELAY * 2 ** 1\<close> seconds plus such a number, and the third
  attempt.
\<close>

theorem retry_exhaustion:
  assumes "\<forall>t. chrome_starts w t" and "\<forall>t. browser_transport_error (browser w t url)"
    and "\<forall>t. http_transport_error (http w t url)"
  shows "\<exists>p0 p1 p2 g'. make_request w url use_selenium g = (Inr None, g')
     \<and> filter attempt_or_delay (new_events g g')
         = [Fetch p0 url, Backoff (real (RETRY_DELAY * 2 ^ 0) + (1 + 4 * random w (tick g + 1))),
            Fetch p1 url, Backoff (real (RETRY_DELAY * 2 ^ 1) + (1 + 4 * random w (tick g + 3))),
            Fetch p2 url]"
proof -
  define u where "u = (if contains ''douban.com'' url \<and> \<not> use_selenium then True else use_selenium)"
  from assms attempt_transport_error [of w g url u 0]
  obtain u1 p0 g1 es0 where 1: "attempt_body w url u 0 g = (Inr (Next u1), g1)"
    "trace g1 = trace g @ es0"
    "filter attempt_or_delay es0 = [Fetch p0 url, Backoff (real (5 * 2 ^ 0) + (1 + 4 * random w (tick g + 1)))]"
    "tick g1 = tick g + 2"
    by auto
  from assms attempt_transport_error [of w g1 url u1 1]
  obtain u2 p1 g2 es1 where 2: "attempt_body w url u1 1 g1 = (Inr (Next u2), g2)"
    "trace g2 = trace g1 @ es1"
    "filter attempt_or_delay es1 = [Fetch p1 url, Backoff (real (5 * 2 ^ 1) + (1 + 4 * random w (tick g1 + 1)))]"
    "tick g2 = tick g1 + 2"
    by auto
  from assms attempt_transport_error [of w g2 url u2 2]
  obtain u3 p2 g3 es2 where 3: "attempt_body w url u2 2 g2 = (Inr (Next u3), g3)"
    "trace g3 = trace g2 @ es2"
    "filter attempt_or_delay es2 = [Fetch p2 url]"
    by auto
  have r: "make_request w url use_selenium g = (Inr None, g3)"
    using 1(1) 2(1) 3(1) by (simp add: make_request_def attempts u_def)
  have t: "trace g3 = trace g @ (es0 @ es1 @ es2)"
    using 1(2) 2(2) 3(2) by simp
  have "filter attempt_or_delay (new_events g g3)
     = [Fetch p0 url, Backoff (real (RETRY_DELAY * 2 ^ 0) + (1 + 4 * random w (tick g + 1))),
        Fetch p1 url, Backoff (real (RETRY_DELAY * 2 ^ 1) + (1 + 4 * random w (tick g + 3))), Fetch p2 url]"
    unfolding new_events_append [OF t] using 1(3,4) 2(3) 3(3)
    by (simp add: numeral_3_eq_3 RETRY_DELAY_def)
  with r show ?thesis by blast
qed

theorem retry_exhaustion_witness:
  "\<exists>p0 p1 p2 g'. make_request world_down ''https://movie.douban.com/people/1/'' False globals_init = (Inr None, g')
     \<and> filter attempt_or_delay (new_events globals_init g')
         = [Fetch p0 ''https://movie.douban.com/people/1/'', Backoff 8,
            Fetch p1 ''https://movie.douban.com/people/1/'', Backoff 13,
            Fetch p2 ''https://movie.douban.com/people/1/'']"
  using retry_exhaustion [of world_down "''https://movie.douban.com/people/1/''" False globals_init]
  by (simp add: world_down_def constant_world_def browser_transport_error_def
      http_transport_error_def RETRY_DELAY_def)

lemma backoff_grows: "\<exists>es. trace (backoff w a g) = trace g @ es \<and> (\<forall>p u. Fetch p u \<notin> set es)
   \<and> tick g \<le> tick (backoff w a g) \<and> DRIVER (backoff w a g) = DRIVER g"
  by (simp add: backoff_unfold)

lemma browser_step:
  assumes "u \<or> DRIVER g \<noteq> None" and "attempt_body w url u a g = (r, g')"
  shows "\<exists>es. trace g' = trace g @ es \<and> (\<forall>url'. Fetch ViaHttp url' \<notin> set es) \<and> tick g \<le> tick g'
     \<and> (\<forall>u'. r = Inr (Next u') \<longrightarrow> u' \<or> DRIVER g' \<noteq> None)"
  using assms
  by (auto simp: attempt_body_def browser_attempt_def setup_driver_def Let_def backoff_unfold
      browser_error_def handle_login_challenge_def save_cookies_def
      split: option.splits browser_outcome.splits challenge.splits if_splits)

lemma http_step:
  assumes "\<not> u" and "DRIVER g = None" and "attempt_body w url u a g = (r, g')"
  shows "\<exists>es. trace g' = trace g @ Fetch ViaHttp url # es \<and> (\<forall>url'. Fetch ViaBrowser url' \<notin> set es)
     \<and> DRIVER g' = None \<and> tick g < tick g'
     \<and> (r = Inr (Next True) \<longrightarrow> escalates (http w (tick g) url))"
  using assms
  by (auto simp: attempt_body_def http_attempt_def Let_def backoff_unfold escalates_def
      split: http_outcome.splits option.splits if_splits)

lemma attempt_grows:
  assumes "attempt_body w url u a g = (r, g')"
  shows "\<exists>es. trace g' = trace g @ es \<and> tick g \<le> tick g'"
proof (cases "u \<or> DRIVER g \<noteq> None")
  case True
  from browser_step [OF True assms] show ?thesis by blast
next
  case False
  then have "\<not> u" "DRIVER g = None" by auto
  from http_step [OF this assms] show ?thesis by (metis less_imp_le)
qed

lemma retry_loop_grows:
  "retry_loop w url u as g = (r, g') \<Longrightarrow> \<exists>es. trace g' = trace g @ es \<and> tick g \<le> tick g'"
proof (induction as arbitrary: u g)
  case Nil
  then show ?case by simp
next
  case (Cons a as)
  obtain r0 g0 where b: "attempt_body w url u a g = (r0, g0)" by (cases "attempt_body w url u a g")
  from attempt_grows [OF b] obtain es0 where e0: "trace g0 = trace g @ es0" "tick g \<le> tick g0"
    by blast
  show ?case
  proof (cases r0)
    case (Inl x)
    with Cons.prems b e0 show ?thesis by auto
  next
    case (Inr st)
    show ?thesis
    proof (cases st)
      case (Return x)
      with Cons.prems b e0 Inr show ?thesis by auto
    next
      case (Next u')
      with Cons.prems b Inr have "retry_loop w url u' as g0 = (r, g')" by simp
      from Cons.IH [OF this] obtain es where "trace g' = trace g0 @ es" "tick g0 \<le> tick g'" by blast
      with e0 show ?thesis by auto
    qed
  qed
qed

lemma browser_sticky:
  "u \<or> DRIVER g \<noteq> None \<Longrightarrow> retry_loop w url u as g = (r, g') \<Longrightarrow>
   \<exists>es. trace g' = trace g @ es \<and> (\<forall>url'. Fetch ViaHttp url' \<notin> set es)"
proof (induction as arbitrary: u g)
  case Nil
  then show ?case by simp
next
  case (Cons a as)
  obtain r0 g0 where b: "attempt_body w url u a g = (r0, g0)" by (cases "attempt_body w url u a g")
  from browser_step [OF Cons.prems(1) b] obtain es0 where e0: "trace g0 = trace g @ es0"
    "\<forall>url'. Fetch ViaHttp url' \<notin> set es0" "\<forall>u'. r0 = Inr (Next u') \<longrightarrow> u' \<or> DRIVER g0 \<noteq> None"
    by blast
  show ?case
  proof (cases r0)
    case (Inl x)
    with Cons.prems b e0 show ?thesis by auto
  next
    case (Inr st)
    show ?thesis
    proof (cases st)
      case (Return x)
      with Cons.prems b e0 Inr show ?thesis by auto
    next
      case (Next u')
      with Cons.prems b Inr have l: "retry_loop w url u' as g0 = (r, g')" by simp
      from e0(3) Inr Next have "u' \<or> DRIVER g0 \<noteq> None" by simp
      from Cons.IH [OF this l] obtain es where "trace g' = trace g0 @ es"
        "\<forall>url'. Fetch ViaHttp url' \<notin> set es" by blast
      with e0 show ?thesis by auto
    qed
  qed
qed

lemma http_first:
  "\<not> u \<Longrightarrow> DRIVER g = None \<Longrightarrow> as \<noteq> [] \<Longrightarrow> retry_loop w url u as g = (r, g') \<Longrightarrow>
   \<exists>es. trace g' = trace g @ Fetch ViaHttp url # es
     \<and> ((\<exists>url'. Fetch ViaBrowser url' \<in> set es) \<longrightarrow>
          (\<exists>t. tick g \<le> t \<and> t < tick g' \<and> escalates (http w t url)))"
proof (induction as arbitrary: u g)
  case Nil
  then show ?case by simp
next
  case (Cons a as)
  obtain r0 g0 where b: "attempt_body w url u a g = (r0, g0)" by (cases "attempt_body w url u a g")
  from http_step [OF Cons.prems(1,2) b] obtain es0 where e0:
    "trace g0 = trace g @ Fetch ViaHttp url # es0" "\<forall>url'. Fetch ViaBrowser url' \<notin> set es0"
    "DRIVER g0 = None" "tick g < tick g0" "r0 = Inr (Next True) \<longrightarrow> escalates (http w (tick g) url)"
    by blast
  show ?case
  proof (cases r0)
    case (Inl x)
    with Cons.prems b e0 show ?thesis by auto
  next
    case (Inr st)
    show ?thesis
    proof (cases st)
      case (Return x)
      with Cons.prems b e0 Inr show ?thesis by auto
    next
      case (Next u')
      with Cons.prems b Inr have l: "retry_loop w url u' as g0 = (r, g')" by simp
      show ?thesis
      proof (cases u')
        case True
        from retry_loop_grows [OF l] obtain es where es: "trace g' = trace g0 @ es" "tick g0 \<le> tick g'"
          by blast
        from True Next Inr e0(5) have "escalates (http w (tick g) url)" by simp
        moreover have "tick g < tick g'" using e0(4) es(2) by simp
        ultimately have "\<exists>t. tick g \<le> t \<and> t < tick g' \<and> escalates (http w t url)" by blast
        with es(1) e0(1) show ?thesis by auto
      next
        case False
        show ?thesis
        proof (cases "as = []")
          case True
          with l have "g' = g0" by simp
          with e0 show ?thesis by auto
        next
          case nonempty: False
          from Cons.IH [OF _ e0(3) nonempty l] False obtain es where es:
            "trace g' = trace g0 @ Fetch ViaHttp url # es"
            "(\<exists>url'. Fetch ViaBrowser url' \<in> set es) \<longrightarrow>
               (\<exists>t. tick g0 \<le> t \<and> t < tick g' \<and> escalates (http w t url))"
            by blast
          have t: "trace g' = trace g @ Fetch ViaHttp url # (es0 @ Fetch ViaHttp url # es)"
            using e0(1) es(1) by simp
          have "\<exists>t. tick g \<le> t \<and> t < tick g' \<and> escalates (http w t url)"
            if "\<exists>url'. Fetch ViaBrowser url' \<in> set (es0 @ Fetch ViaHttp url # es)"
          proof -
            from that e0(2) have "\<exists>url'. Fetch ViaBrowser url' \<in> set es" by auto
            with es(2) obtain t where "tick g0 \<le> t" "t < tick g'" "escalates (http w t url)"
              by blast
            moreover from this e0(4) have "tick g \<le> t" by simp
            ultimately show ?thesis by blast
          qed
          with t show ?thesis by blast
        qed
      qed
    qed
  qed
qed

text \<open>
  Claim C4, as the code has it. A request for an address that does not contain
  \<open>douban.com\<close>, made without \<open>use_selenium\<close> while no browser session exists, starts with
  an HTTP call, and a browser fetch appears later in it only if an HTTP attempt before it
  met status 403, a \<open>ProxyError\<close> or a \<open>RequestException\<close> that names a
  \<open>ConnectionError\<close>. A request for an address that contains \<open>douban.com\<close>, or made with
  \<open>use_selenium\<close>, or made while a browser session exists, makes no HTTP call at all: it
  uses the browser from the first attempt on.
\<close>

theorem lightweight_first:
  "(\<not> contains ''douban.com'' url \<and> DRIVER g = None \<and> make_request w url False g = (r, g') \<longrightarrow>
      (\<exists>es. new_events g g' = Fetch ViaHttp url # es
         \<and> ((\<exists>url'. Fetch ViaBrowser url' \<in> set es) \<longrightarrow>
              (\<exists>t. tick g \<le> t \<and> t < tick g' \<and> escalates (http w t url)))))
   \<and> ((contains ''douban.com'' url \<or> use_selenium \<or> DRIVER g \<noteq> None)
        \<and> make_request w url use_selenium g = (r, g') \<longrightarrow>
      (\<forall>url'. Fetch ViaHttp url' \<notin> set (new_events g g')))"
proof (intro conjI impI)
  assume a: "\<not> contains ''douban.com'' url \<and> DRIVER g = None \<and> make_request w url False g = (r, g')"
  then have l: "retry_loop w url False [0, 1, 2] g = (r, g')"
    by (auto simp: make_request_def attempts simp del: retry_loop.simps)
  from http_first [OF _ _ _ l] a obtain es where "trace g' = trace g @ Fetch ViaHttp url # es"
    "(\<exists>url'. Fetch ViaBrowser url' \<in> set es) \<longrightarrow>
       (\<exists>t. tick g \<le> t \<and> t < tick g' \<and> escalates (http w t url))"
    by auto
  then show "\<exists>es. new_events g g' = Fetch ViaHttp url # es
         \<and> ((\<exists>url'. Fetch ViaBrowser url' \<in> set es) \<longrightarrow>
              (\<exists>t. tick g \<le> t \<and> t < tick g' \<and> escalates (http w t url)))"
    by (simp add: new_events_def)
next
  assume a: "(contains ''douban.com'' url \<or> use_selenium \<or> DRIVER g \<noteq> None)
        \<and> make_request w url use_selenium g = (r, g')"
  define u where "u = (if contains ''douban.com'' url \<and> \<not> use_selenium then True else use_selenium)"
  from a have l: "retry_loop w url u [0, 1, 2] g = (r, g')" and s: "u \<or> DRIVER g \<noteq> None"
    by (auto simp: make_request_def attempts u_def simp del: retry_loop.simps)
  from browser_sticky [OF s l] show "\<forall>url'. Fetch ViaHttp url' \<notin> set (new_events g g')"
    by (auto simp: new_events_def)
qed

theorem lightweight_first_witness:
  "\<not> contains ''douban.com'' ''https://www.imdb.com/title/tt0078748/''
   \<and> DRIVER globals_init = None
   \<and> new_events globals_init
         (snd (make_request world_forbidden ''https://www.imdb.com/title/tt0078748/'' False globals_init))
       = [Fetch ViaHttp ''https://www.imdb.com/title/tt0078748/'', Backoff 8, ChromeStarted,
          Fetch ViaBrowser ''https://www.imdb.com/title/tt0078748/'']
   \<and> escalates (http world_forbidden 0 ''https://www.imdb.com/title/tt0078748/'')
   \<and> (\<forall>url'. Fetch ViaHttp url' \<notin> set (new_events globals_init
         (snd (make_request world_forbidden ''https://www.imdb.com/title/tt0078748/'' True globals_init))))"
proof -
  let ?url = "''https://www.imdb.com/title/tt0078748/''"
  have c: "\<not> contains ''douban.com'' ?url" by code_simp
  have d: "DRIVER globals_init = None" by (simp add: globals_init_def)
  have e: "new_events globals_init (snd (make_request world_forbidden ?url False globals_init))
       = [Fetch ViaHttp ?url, Backoff 8, ChromeStarted, Fetch ViaBrowser ?url]"
    using c
    by (simp add: make_request_def attempts attempt_body_def browser_attempt_def http_attempt_def
        setup_driver_def world_forbidden_def constant_world_def globals_init_def
        handle_login_challenge_def backoff_unfold new_events_def log_def)
  have h: "escalates (http world_forbidden 0 ?url)"
    by (simp add: escalates_def world_forbidden_def constant_world_def)
  show ?thesis
    using lightweight_first [of ?url globals_init world_forbidden
        "fst (make_request world_forbidden ?url True globals_init)"
        "snd (make_request world_forbidden ?url True globals_init)" True] c d e h
    by simp
qed

text \<open>The claim as the specification words it fails: for an address of the source site,
  on a host where nothing fails, the first attempt already goes through the browser.\<close>

theorem browser_first_on_douban:
  "new_events globals_init (snd (make_request world_up ''https://movie.douban.com/people/1/'' False globals_init))
     = [ChromeStarted, Fetch ViaBrowser ''https://movie.douban.com/people/1/'']"
  by (simp add: make_request_def attempts attempt_body_def browser_attempt_def setup_driver_def
      world_up_def constant_world_def globals_init_def handle_login_challenge_def startswith_def
      new_events_def log_def)

section \<open>The external id\<close>

lemma search_tt_form:
  "search_tt s = Some m \<Longrightarrow> \<exists>ds. m = ''tt'' @ ds \<and> ds \<noteq> [] \<and> list_all is_decimal ds"
  by (induction s) (auto simp: list_all_iff split: if_splits dest: set_takeWhileD)

lemma href_match_form:
  "href_match hrefs = Some m \<Longrightarrow>
   \<exists>href ds. href \<in> set hrefs \<and> contains ''imdb.com/title/tt'' href \<and> search_tt href = Some m
     \<and> m = ''tt'' @ ds \<and> ds \<noteq> [] \<and> list_all is_decimal ds"
proof -
  assume a: "href_match hrefs = Some m"
  then obtain href where f: "find (contains ''imdb.com/title/tt'') hrefs = Some href"
    and s: "search_tt href = Some m"
    by (auto simp: href_match_def split: option.splits)
  from f have "href \<in> set hrefs" "contains ''imdb.com/title/tt'' href"
    by (auto simp: find_Some_iff)
  with search_tt_form [OF s] s show ?thesis by blast
qed

lemma label_adjacent_None:
  "(label_adjacent spans = None) =
   (\<forall>(text, sib) \<in> set spans. contains ''IMDb'' text \<longrightarrow> (\<forall>s. sib = Text s \<longrightarrow> \<not> startswith (strip s) ''tt''))"
  by (induction spans rule: label_adjacent.induct) (auto simp: startswith_def strip_def split: sibling.splits)

text \<open>
  Claim C6, as the code has it. For a detail page that was fetched and has an info
  section, the three strategies are tried in order: an id next to the IMDb label is
  returned; without one, the match of \<open>tt\d+\<close> in the first anchor that points to
  \<open>imdb.com/title/tt\<close> is returned, and it is \<open>tt\<close> followed by digits; without that, the
  token scan decides; and when no strategy matches, the result is \<open>None\<close> and nothing is
  raised.
\<close>

theorem external_id_order:
  assumes "make_request w douban_url True g = (Inr (Some page), g')" and "info page = Some sec"
  shows "(label_adjacent (pl_spans sec) = Some i \<longrightarrow> get_imdb_id w douban_url g = (Inr (Some i), g'))
    \<and> (label_adjacent (pl_spans sec) = None \<and> href_match (anchors page) = Some m \<longrightarrow>
         get_imdb_id w douban_url g = (Inr (Some m), g')
         \<and> (\<exists>ds. m = ''tt'' @ ds \<and> ds \<noteq> [] \<and> list_all is_decimal ds))
    \<and> (label_adjacent (pl_spans sec) = None \<and> href_match (anchors page) = None \<longrightarrow>
         get_imdb_id w douban_url g = (Inr (token_scan (stripped_strings sec)), g'))
    \<and> (label_adjacent (pl_spans sec) = None \<and> href_match (anchors page) = None
         \<and> token_scan (stripped_strings sec) = None \<longrightarrow>
         get_imdb_id w douban_url g = (Inr None, g'))"
  using assms
  by (auto simp: get_imdb_id_def imdb_id_of_page_def dest: href_match_form split: option.splits)


theorem external_id_order_witness:
  "label_adjacent (pl_spans (the (info linked_page))) = None
   \<and> href_match (anchors linked_page) = Some ''tt0078748''
   \<and> fst (get_imdb_id (world_serving linked_page) ''https://movie.douban.com/subject/1292063/'' globals_init)
       = Inr (Some ''tt0078748'')"
proof -
  let ?w = "world_serving linked_page" and ?url = "''https://movie.douban.com/subject/1292063/''"
  have "fst (make_request ?w ?url True globals_init) = Inr (Some linked_page)" by code_simp
  then have f: "make_request ?w ?url True globals_init
      = (Inr (Some linked_page), snd (make_request ?w ?url True globals_init))"
    by (simp add: prod_eq_iff)
  have i: "info linked_page = Some (the (info linked_page))" by (simp add: linked_page_def)
  have l: "label_adjacent (pl_spans (the (info linked_page))) = None" by code_simp
  have h: "href_match (anchors linked_page) = Some ''tt0078748''" by code_simp
  show ?thesis
    using external_id_order [OF f i, of "''tt0078748''" "''tt0078748''"] l h by simp
qed

text \<open>The claim as the specification words it fails for a page without an info section:
  nothing stands next to a label, an anchor matches, and the result is \<open>None\<close>.\<close>

theorem no_info_section_no_id:
  "info bare_page = None
   \<and> href_match (anchors bare_page) = Some ''tt0078748''
   \<and> fst (get_imdb_id (world_serving bare_page) ''https://movie.douban.com/subject/1292063/'' globals_init)
       = Inr None"
proof (intro conjI)
  show "info bare_page = None" by (simp add: bare_page_def blank_page_def)
  show "href_match (anchors bare_page) = Some ''tt0078748''" by code_simp
  show "fst (get_imdb_id (world_serving bare_page) ''https://movie.douban.com/subject/1292063/'' globals_init)
       = Inr None" by code_simp
qed

section \<open>The date cutoff\<close>

lemma get_rating_never_raises: "\<exists>r. get_rating rc = Inr r"
  by (cases rc) (auto simp: get_rating_def split: sum.splits dest: int_of_str_error)

lemma item_rating_never_raises: "\<exists>r. item_rating it = Inr r"
  using get_rating_never_raises by (auto simp: item_rating_def split: option.splits)

text \<open>The fetcher leaves the cutoff date and the flag alone, and without an interrupt it
  returns.\<close>

lemma attempt_frame:
  assumes "attempt_body w url u a g = (r, g')"
  shows "IS_OVER g' = IS_OVER g \<and> START_DATE g' = START_DATE g"
  using assms
  by (auto simp: attempt_body_def browser_attempt_def http_attempt_def setup_driver_def Let_def
      backoff_unfold browser_error_def handle_login_challenge_def save_cookies_def log_def
      split: option.splits browser_outcome.splits http_outcome.splits challenge.splits if_splits)

lemma attempt_returns:
  assumes "\<forall>t url. browser w t url \<noteq> BInterrupt" and "\<forall>t url. http w t url \<noteq> HInterrupt"
    and "\<forall>t. chrome_starts w t"
  shows "\<exists>s g'. attempt_body w url u a g = (Inr s, g')"
proof (cases "u \<or> DRIVER g \<noteq> None")
  case True
  with assms(1,3) show ?thesis
    by (auto simp: attempt_body_def browser_attempt_def setup_driver_def Let_def
        split: option.splits browser_outcome.splits prod.splits bool.splits)
next
  case False
  with assms(2) show ?thesis
    by (auto simp: attempt_body_def http_attempt_def Let_def
        split: http_outcome.splits option.splits)
qed

lemma retry_loop_frame:
  "retry_loop w url u as g = (r, g') \<Longrightarrow> IS_OVER g' = IS_OVER g \<and> START_DATE g' = START_DATE g"
proof (induction as arbitrary: u g)
  case Nil
  then show ?case by simp
next
  case (Cons a as)
  obtain r0 g0 where b: "attempt_body w url u a g = (r0, g0)" by (cases "attempt_body w url u a g")
  note f = attempt_frame [OF b]
  show ?case
  proof (cases r0)
    case (Inl x)
    with Cons.prems b f show ?thesis by auto
  next
    case (Inr st)
    show ?thesis
    proof (cases st)
      case (Return x)
      with Cons.prems b f Inr show ?thesis by auto
    next
      case (Next u')
      with Cons.prems b Inr have "retry_loop w url u' as g0 = (r, g')" by simp
      from Cons.IH [OF this] f show ?thesis by simp
    qed
  qed
qed

lemma retry_loop_returns:
  assumes "\<forall>t url. browser w t url \<noteq> BInterrupt" and "\<forall>t url. http w t url \<noteq> HInterrupt"
    and "\<forall>t. chrome_starts w t"
  shows "\<exists>r g'. retry_loop w url u as g = (Inr r, g')"
proof (induction as arbitrary: u g)
  case Nil
  show ?case by simp
next
  case (Cons a as)
  from attempt_returns [OF assms] obtain s g0 where b: "attempt_body w url u a g = (Inr s, g0)"
    by blast
  show ?case
  proof (cases s)
    case (Return x)
    with b show ?thesis by simp
  next
    case (Next u')
    from Cons.IH [of u' g0] b Next show ?thesis by simp
  qed
qed

lemma get_imdb_id_frame:
  "get_imdb_id w url g = (r, g') \<Longrightarrow> IS_OVER g' = IS_OVER g \<and> START_DATE g' = START_DATE g"
  by (auto simp: get_imdb_id_def make_request_def split: prod.splits sum.splits option.splits
      dest: retry_loop_frame)

lemma get_imdb_id_returns:
  assumes "\<forall>t url. browser w t url \<noteq> BInterrupt" and "\<forall>t url. http w t url \<noteq> HInterrupt"
    and "\<forall>t. chrome_starts w t"
  shows "\<exists>r g'. get_imdb_id w url g = (Inr r, g')"
proof -
  from retry_loop_returns [OF assms] obtain r g' where
    "retry_loop w url True [0..<MAX_RETRIES] g = (Inr r, g')" by blast
  then show ?thesis by (cases r) (auto simp: get_imdb_id_def make_request_def)
qed

lemma uniform_frame:
  "uniform w a b g = (d, g') \<Longrightarrow> IS_OVER g' = IS_OVER g \<and> START_DATE g' = START_DATE g"
  by (auto simp: uniform_def)

lemma hd_record_of [simp]: "hd (record_of t rating imdb) = CStr t"
  by (simp add: record_of_def)

text \<open>The loop over the items: the items before the first one that stops it are emitted
  or skipped, and the loop ends there with the flag set.\<close>

lemma item_loop_stops:
  assumes w: "\<forall>t url. browser w t url \<noteq> BInterrupt" "\<forall>t url. http w t url \<noteq> HInterrupt"
    "\<forall>t. chrome_starts w t"
  shows "stops_at w (START_DATE g) x \<Longrightarrow> \<forall>it \<in> set pre. \<not> stops_at w (START_DATE g) it \<Longrightarrow>
    \<exists>new g'. item_loop w (pre @ x # post) rows g = (Inr (rows @ new), g') \<and> IS_OVER g'
      \<and> map hd new = map (\<lambda>it. CStr (the (title it))) (filter (emitted w (START_DATE g)) pre)"
proof (induction pre arbitrary: rows g)
  case Nil
  obtain r where "item_rating x = Inr r" using item_rating_never_raises by blast
  with Nil show ?case by (auto simp: stops_at_def)
next
  case (Cons a pre)
  from Cons.prems have x: "stops_at w (START_DATE g) x"
    and pre: "\<forall>it \<in> set pre. \<not> stops_at w (START_DATE g) it"
    and a: "\<not> stops_at w (START_DATE g) a" by auto
  obtain r where r: "item_rating a = Inr r" using item_rating_never_raises by blast
  show ?case
  proof (cases "emitted w (START_DATE g) a")
    case False
    from Cons.IH [OF x pre, of rows] obtain new g' where
      "item_loop w (pre @ x # post) rows g = (Inr (rows @ new), g')" "IS_OVER g'"
      "map hd new = map (\<lambda>it. CStr (the (title it))) (filter (emitted w (START_DATE g)) pre)"
      by blast
    moreover have "item_loop w ((a # pre) @ x # post) rows g = item_loop w (pre @ x # post) rows g"
      using False a r
      by (auto simp: emitted_def stops_at_def split: option.splits sum.splits bool.splits)
    moreover have "filter (emitted w (START_DATE g)) (a # pre) = filter (emitted w (START_DATE g)) pre"
      using False by simp
    ultimately show ?thesis by metis
  next
    case True
    then obtain t l where tl: "title a = Some t" "link a = Some l"
      "at_or_before_cutoff w (START_DATE g) a = Inr False"
      by (auto simp: emitted_def)
    obtain d g1 where u: "uniform w 1 2 g = (d, g1)" by (cases "uniform w 1 2 g")
    from get_imdb_id_returns [OF w] obtain imdb g2 where
      i: "get_imdb_id w l (log [Pause d] g1) = (Inr imdb, g2)" by blast
    have s: "START_DATE g2 = START_DATE g"
      using get_imdb_id_frame [OF i] uniform_frame [OF u] by simp
    from Cons.IH [of g2 "rows @ [record_of t r imdb]"] x pre s obtain new g' where n:
      "item_loop w (pre @ x # post) (rows @ [record_of t r imdb]) g2
         = (Inr ((rows @ [record_of t r imdb]) @ new), g')" "IS_OVER g'"
      "map hd new = map (\<lambda>it. CStr (the (title it))) (filter (emitted w (START_DATE g)) pre)"
      by auto
    have "item_loop w ((a # pre) @ x # post) rows g = (Inr (rows @ (record_of t r imdb # new)), g')"
      using tl r u i n(1) by simp
    moreover have "map hd (record_of t r imdb # new)
        = map (\<lambda>it. CStr (the (title it))) (filter (emitted w (START_DATE g)) (a # pre))"
      using True tl n(3) by simp
    ultimately show ?thesis using n(2) by blast
  qed
qed

lemma make_request_frame:
  "make_request w url u g = (r, g') \<Longrightarrow> IS_OVER g' = IS_OVER g \<and> START_DATE g' = START_DATE g"
  by (auto simp: make_request_def dest: retry_loop_frame)

lemma export_loop_over: "IS_OVER g \<Longrightarrow> export_loop w urls rows g = (Inr rows, g)"
  by (cases urls) simp_all


subsection \<open>Dates that are printed and read back\<close>

lemma dec_value_snoc: "dec_value (xs @ [c]) = 10 * dec_value xs + int (digit_val c)"
  by (simp add: dec_value_def)

lemma digit_table:
  "list_all (\<lambda>k. is_decimal (digit_char (nat k)) \<and> int (digit_val (digit_char (nat k))) = k) [0..9]"
  by code_simp

lemma digit_char_decimal:
  assumes "0 \<le> k" and "k < 10"
  shows "is_decimal (digit_char (nat k)) \<and> int (digit_val (digit_char (nat k))) = k"
proof -
  from assms have "k \<in> set [0..9]" by simp
  with digit_table show ?thesis unfolding list_all_iff by blast
qed

lemma digits_value: "0 \<le> n \<Longrightarrow> dec_value (digits n) = n"
proof (induction n rule: digits.induct)
  case (1 n)
  show ?case
  proof (cases "n < 10")
    case True
    with "1.prems" digit_char_decimal [of n] show ?thesis
      by (subst digits.simps) (simp add: dec_value_def)
  next
    case False
    then have "dec_value (digits (n div 10)) = n div 10" using "1.IH" "1.prems" by simp
    moreover have "int (digit_val (digit_char (nat (n mod 10)))) = n mod 10"
      using digit_char_decimal [of "n mod 10"] by simp
    ultimately show ?thesis using False
      by (subst digits.simps) (simp add: dec_value_snoc)
  qed
qed

lemma digits_decimal: "0 \<le> n \<Longrightarrow> list_all is_decimal (digits n)"
proof (induction n rule: digits.induct)
  case (1 n)
  show ?case
  proof (cases "n < 10")
    case True
    with "1.prems" digit_char_decimal [of n] show ?thesis
      by (subst digits.simps) simp
  next
    case False
    then have "list_all is_decimal (digits (n div 10))" using "1.IH" "1.prems" by simp
    moreover have "is_decimal (digit_char (nat (n mod 10)))"
      using digit_char_decimal [of "n mod 10"] by simp
    ultimately show ?thesis using False
      by (subst digits.simps) simp
  qed
qed

lemma digits_length_1: "n < 10 \<Longrightarrow> length (digits n) = 1"
  by (subst digits.simps) simp

lemma digits_length_step: "10 \<le> n \<Longrightarrow> length (digits n) = Suc (length (digits (n div 10)))"
  by (subst digits.simps) simp

lemma digits_length_4: "1000 \<le> n \<Longrightarrow> n \<le> 9999 \<Longrightarrow> length (digits n) = 4"
proof -
  assume a: "1000 \<le> n" "n \<le> 9999"
  have 1: "length (digits n) = Suc (length (digits (n div 10)))"
    using a by (intro digits_length_step) simp
  have 2: "length (digits (n div 10)) = Suc (length (digits (n div 10 div 10)))"
    using a by (intro digits_length_step) simp
  have 3: "length (digits (n div 10 div 10)) = Suc (length (digits (n div 10 div 10 div 10)))"
    using a by (intro digits_length_step) simp
  have 4: "length (digits (n div 10 div 10 div 10)) = 1"
    using a by (intro digits_length_1) simp
  from 1 2 3 4 show ?thesis by simp
qed


lemma alt_append:
  "length cls \<le> length s \<Longrightarrow> alt cls (s @ r) = map (\<lambda>(t, u). (t, u @ r)) (alt cls s)"
proof (induction cls s rule: alt.induct)
  case (1 s)
  show ?case by simp
next
  case (2 cls rest)
  then show ?case by simp
next
  case (3 cls rest c cs)
  then show ?case by (auto simp: case_prod_unfold)
qed

lemma alt_year:
  assumes "length ds = 4" and "list_all is_decimal ds"
  shows "alt [''0123456789'', ''0123456789'', ''0123456789'', ''0123456789''] (ds @ r) = [(ds, r)]"
proof -
  from assms(1) obtain a b c e where ds: "ds = [a, b, c, e]"
    by (cases ds; cases "tl ds"; cases "tl (tl ds)"; cases "tl (tl (tl ds))") auto
  from assms(2) show ?thesis unfolding ds by (simp add: is_decimal_def)
qed

lemma month_table:
  "list_all (\<lambda>m. length (two_digits m) = 2 \<and> dec_value (two_digits m) = m
      \<and> hd (matches Dm (two_digits m)) = (two_digits m, []) \<and> matches Dm (two_digits m) \<noteq> [])
     [1..12]"
  by code_simp

lemma day_table:
  "list_all (\<lambda>d. length (two_digits d) = 2
      \<and> dec_value (dropWhile (\<lambda>c. c = CHR '' '') (two_digits d)) = d
      \<and> hd (matches Dd (two_digits d)) = (two_digits d, []) \<and> matches Dd (two_digits d) \<noteq> [])
     [1..31]"
  by code_simp

lemma matches_month:
  assumes "1 \<le> m" and "m \<le> 12"
  shows "\<exists>others. matches Dm (two_digits m @ r) = (two_digits m, r) # others"
    and "dec_value (two_digits m) = m"
proof -
  from assms have "m \<in> set [1..12]" by simp
  with month_table have t: "length (two_digits m) = 2" "dec_value (two_digits m) = m"
    "hd (matches Dm (two_digits m)) = (two_digits m, [])" "matches Dm (two_digits m) \<noteq> []"
    unfolding list_all_iff by blast+
  from t(3,4) obtain others where o: "matches Dm (two_digits m) = (two_digits m, []) # others"
    by (cases "matches Dm (two_digits m)") auto
  have "matches Dm (two_digits m @ r) = map (\<lambda>(t, u). (t, u @ r)) (matches Dm (two_digits m))"
    using t(1) by (simp add: matches_def alt_append)
  with o show "\<exists>others. matches Dm (two_digits m @ r) = (two_digits m, r) # others" by simp
  show "dec_value (two_digits m) = m" by (rule t(2))
qed

lemma matches_day:
  assumes "1 \<le> d" and "d \<le> 31"
  shows "\<exists>others. matches Dd (two_digits d) = (two_digits d, []) # others"
    and "dec_value (dropWhile (\<lambda>c. c = CHR '' '') (two_digits d)) = d"
proof -
  from assms have "d \<in> set [1..31]" by simp
  with day_table have t: "dec_value (dropWhile (\<lambda>c. c = CHR '' '') (two_digits d)) = d"
    "hd (matches Dd (two_digits d)) = (two_digits d, [])" "matches Dd (two_digits d) \<noteq> []"
    unfolding list_all_iff by blast+
  from t(2,3) show "\<exists>others. matches Dd (two_digits d) = (two_digits d, []) # others"
    by (cases "matches Dd (two_digits d)") auto
  show "dec_value (dropWhile (\<lambda>c. c = CHR '' '') (two_digits d)) = d" by (rule t(1))
qed

lemma days_in_month_le: "days_in_month y m \<le> 31"
  by (simp add: days_in_month_def)

text \<open>A date that exists, with a year of four digits, is read back from its print.\<close>

lemma read_back:
  assumes "1000 \<le> y" and "y \<le> 9999" and "1 \<le> m" and "m \<le> 12" and "1 \<le> d"
    and "d \<le> days_in_month y m"
  shows "strptime (strftime pad (y, m, d)) fmt_dash = Inr (y, m, d)"
proof -
  have d31: "d \<le> 31" using assms(6) days_in_month_le [of y m] by simp
  have y0: "0 \<le> y" using assms(1) by simp
  note l = digits_length_4 [OF assms(1,2)]
  have s: "strftime pad (y, m, d) = digits y @ CHR ''-'' # two_digits m @ CHR ''-'' # two_digits d"
    by (simp add: strftime_def l)
  obtain om where om: "matches Dm (two_digits m @ CHR ''-'' # two_digits d)
      = (two_digits m, CHR ''-'' # two_digits d) # om"
    using matches_month(1) [OF assms(3,4)] by blast
  obtain od where od: "matches Dd (two_digits d) = (two_digits d, []) # od"
    using matches_day(1) [OF assms(5) d31] by blast
  have y: "matches DY (digits y @ CHR ''-'' # two_digits m @ CHR ''-'' # two_digits d)
      = [(digits y, CHR ''-'' # two_digits m @ CHR ''-'' # two_digits d)]"
    by (simp add: matches_def alt_year [OF l digits_decimal [OF y0]])
  have "first_match fmt_dash (1900, 1, 1) (strftime pad (y, m, d)) = Some ((y, m, d), [])"
    unfolding s fmt_dash_def
    by (simp add: y matches_def [of "Lit c" for c] om od set_field_def digits_value [OF y0]
        matches_month(2) [OF assms(3,4)] matches_day(2) [OF assms(5) d31])
  then show ?thesis using assms by (simp add: strptime_def)
qed

text \<open>What \<open>strptime\<close> returns is a date that exists.\<close>

lemma strptime_valid:
  assumes "strptime s fmt = Inr (y, m, d)"
  shows "1 \<le> y \<and> 1 \<le> m \<and> m \<le> 12 \<and> 1 \<le> d \<and> d \<le> days_in_month y m"
  using assms by (auto simp: strptime_def split: option.splits prod.splits if_splits)

text \<open>Among dates that exist, the order of the keys is the order of the calendar: by
  year, then by month, then by day.\<close>

lemma date_key_order:
  assumes "1 \<le> m" "m \<le> 12" "1 \<le> d" "d \<le> 31" "1 \<le> m'" "m' \<le> 12" "1 \<le> d'" "d' \<le> 31"
  shows "date_key (y, m, d) \<le> date_key (y', m', d')
     \<longleftrightarrow> y < y' \<or> (y = y' \<and> (m < m' \<or> (m = m' \<and> d \<le> d')))"
  using assms by (auto simp: date_key_def)

text \<open>The comparison of the script and the calendar. The date an item shows is a date that
  exists; the normalized date is its print; and when its year has four digits, the print
  is read back, so that the comparison with a cutoff that is a date is that of the
  calendar.\<close>

lemma normalized_of_shown:
  "shown_date w it = Some d \<Longrightarrow> normalized_date w it = strftime (pad_year w) d"
  by (auto simp: shown_date_def normalized_date_def Let_def split: sum.splits)

lemma shown_date_valid:
  "shown_date w it = Some (y, m, d) \<Longrightarrow>
     1 \<le> y \<and> 1 \<le> m \<and> m \<le> 12 \<and> 1 \<le> d \<and> d \<le> days_in_month y m"
  by (auto simp: shown_date_def Let_def split: sum.splits dest: strptime_valid)

lemma cutoff_is_calendar:
  assumes shown: "shown_date w it = Some (y, m, d)" and y: "1000 \<le> y" "y \<le> 9999"
    and c: "strptime cutoff fmt_plain = Inr c"
  shows "at_or_before_cutoff w cutoff it = Inr (on_or_before (y, m, d) c)"
proof -
  obtain cy cm cd where cc: "c = (cy, cm, cd)" by (cases c)
  from shown_date_valid [OF shown] have v: "1 \<le> m" "m \<le> 12" "1 \<le> d" "d \<le> days_in_month y m"
    by simp_all
  from strptime_valid [OF c [unfolded cc]] have vc: "1 \<le> cm" "cm \<le> 12" "1 \<le> cd"
    "cd \<le> days_in_month cy cm"
    by simp_all
  have d31: "d \<le> 31" "cd \<le> 31"
    using v(4) vc(4) days_in_month_le [of y m] days_in_month_le [of cy cm] by simp_all
  have "strptime (normalized_date w it) fmt_dash = Inr (y, m, d)"
    unfolding normalized_of_shown [OF shown] by (rule read_back [OF y v])
  moreover have "(date_key (y, m, d) \<le> date_key (cy, cm, cd)) = on_or_before (y, m, d) (cy, cm, cd)"
    unfolding on_or_before_def using date_key_order [OF v(1,2,3) d31(1) vc(1,2,3) d31(2)] by simp
  ultimately show ?thesis using c by (simp add: at_or_before_cutoff_def cc)
qed

text \<open>Where the C library does not pad the year, an item that shows a date before the
  year 1000 is skipped, whatever the cutoff: the print of its date is not read back. The
  item after it is emitted, and the flag stays unset.\<close>

lemma unread_date_skipped:
  "shown_date (unpadded (world_of_pages (site page_old))) (items page_old ! 0) = Some (999, 1, 1)
   \<and> at_or_before_cutoff (unpadded (world_of_pages (site page_old))) ''20050502'' (items page_old ! 0)
       = Inl ValueError
   \<and> map_sum id (map_option (map hd))
        (fst (get_info (unpadded (world_of_pages (site page_old)))
           ''https://movie.douban.com/people/1/collect?start=0'' globals_init))
       = Inr (Some [CStr ''Alien''])
   \<and> \<not> IS_OVER (snd (get_info (unpadded (world_of_pages (site page_old)))
          ''https://movie.douban.com/people/1/collect?start=0'' globals_init))"
  by code_simp

text \<open>
  Claim C2, as the code has it. On a page that was fetched, in a run that no interrupt
  ends, extraction stops at the first item at which the loop stops (\<open>stops_at\<close>): an item
  that has a title and a link and whose date the script's comparison places at or before
  the cutoff date. There \<open>get_info\<close> sets \<open>IS_OVER\<close>, the records it returns are those of
  earlier items of the page (the ones with a title, a link and a date that the comparison
  places after the cutoff), and \<open>export\<close>'s loop ends in the state \<open>get_info\<close> left, having
  fetched no later page. An item without a title or a link is skipped before its date is
  looked at, and an item whose date the comparison cannot read back is skipped as well;
  neither stops the extraction. For an item that has a title and a link and shows a date
  of the years 1000 to 9999, and a cutoff that is a date, the comparison is that of the
  calendar: the loop stops at the item exactly when its date is on or before the cutoff
  date, and a record is emitted for it exactly when its date is after the cutoff date.
  The order of the dates on the page plays no part.
\<close>

theorem cutoff_halts:
  assumes w: "\<forall>t url. browser w t url \<noteq> BInterrupt" "\<forall>t url. http w t url \<noteq> HInterrupt"
    "\<forall>t. chrome_starts w t"
    and running: "\<not> IS_OVER g"
    and fetched: "make_request w url False g = (Inr (Some page), g1)"
    and k: "k < length (items page)"
    and at: "stops_at w (START_DATE g) (items page ! k)"
    and before: "\<forall>j<k. \<not> stops_at w (START_DATE g) (items page ! j)"
  shows "(\<exists>rows g2. get_info w url g = (Inr (Some rows), g2) \<and> IS_OVER g2
      \<and> map hd rows
          = map (\<lambda>it. CStr (the (title it))) (filter (emitted w (START_DATE g)) (take k (items page)))
      \<and> export_loop w (url # urls) acc g = (Inr (acc @ rows), g2))
    \<and> (\<forall>it y m d c. title it \<noteq> None \<and> link it \<noteq> None \<and> shown_date w it = Some (y, m, d)
          \<and> 1000 \<le> y \<and> y \<le> 9999 \<and> strptime (START_DATE g) fmt_plain = Inr c \<longrightarrow>
        stops_at w (START_DATE g) it = on_or_before (y, m, d) c
        \<and> emitted w (START_DATE g) it = (\<not> on_or_before (y, m, d) c))"
proof -
  have s: "START_DATE g1 = START_DATE g" using make_request_frame [OF fetched] by simp
  have split: "items page = take k (items page) @ items page ! k # drop (Suc k) (items page)"
    using k by (simp add: id_take_nth_drop)
  have pre: "\<forall>it \<in> set (take k (items page)). \<not> stops_at w (START_DATE g1) it"
    using before k s by (auto simp: in_set_conv_nth)
  from item_loop_stops [OF w, of g1 "items page ! k" "take k (items page)" "drop (Suc k) (items page)" "[]"]
    at pre s split
  obtain rows g2 where l: "item_loop w (items page) [] g1 = (Inr rows, g2)" and o: "IS_OVER g2"
    and r: "map hd rows
      = map (\<lambda>it. CStr (the (title it))) (filter (emitted w (START_DATE g)) (take k (items page)))"
    by auto
  have n: "items page \<noteq> []" using k by auto
  have i: "get_info w url g = (Inr (Some rows), g2)"
    using fetched l n by (simp add: get_info_def)
  have "export_loop w (url # urls) acc g = (Inr (acc @ rows), g2)"
    using running i o by (simp add: export_loop_over)
  with i o r have halts: "\<exists>rows g2. get_info w url g = (Inr (Some rows), g2) \<and> IS_OVER g2
      \<and> map hd rows
          = map (\<lambda>it. CStr (the (title it))) (filter (emitted w (START_DATE g)) (take k (items page)))
      \<and> export_loop w (url # urls) acc g = (Inr (acc @ rows), g2)"
    by blast
  have calendar: "stops_at w (START_DATE g) it = on_or_before (y, m, d) c
      \<and> emitted w (START_DATE g) it = (\<not> on_or_before (y, m, d) c)"
    if "title it \<noteq> None \<and> link it \<noteq> None \<and> shown_date w it = Some (y, m, d)
          \<and> 1000 \<le> y \<and> y \<le> 9999 \<and> strptime (START_DATE g) fmt_plain = Inr c"
    for it y m d c
  proof -
    from that have "at_or_before_cutoff w (START_DATE g) it = Inr (on_or_before (y, m, d) c)"
      by (intro cutoff_is_calendar) simp_all
    with that show ?thesis by (simp add: stops_at_def emitted_def)
  qed
  from halts calendar show ?thesis by blast
qed

theorem cutoff_halts_witness:
  "(\<exists>rows g2. export_loop (world_of_pages (site page_one))
        [''https://movie.douban.com/people/1/collect?start=0'',
         ''https://movie.douban.com/people/1/collect?start=15''] [] globals_init = (Inr rows, g2)
     \<and> IS_OVER g2 \<and> map hd rows = [CStr ''Alien''])
   \<and> stops_at (world_of_pages (site page_one)) ''20050502'' (items page_one ! 1)
   \<and> on_or_before (2005, 5, 2) (2005, 5, 2)
   \<and> emitted (world_of_pages (site page_one)) ''20050502'' (items page_one ! 0)
   \<and> \<not> on_or_before (2024, 3, 1) (2005, 5, 2)"
proof -
  let ?w = "world_of_pages (site page_one)"
  let ?url = "''https://movie.douban.com/people/1/collect?start=0''"
  have w: "\<forall>t url. browser ?w t url \<noteq> BInterrupt" "\<forall>t url. http ?w t url \<noteq> HInterrupt"
    "\<forall>t. chrome_starts ?w t"
    by (simp_all add: world_of_pages_def)
  have running: "\<not> IS_OVER globals_init" by (simp add: globals_init_def)
  have "fst (make_request ?w ?url False globals_init) = Inr (Some page_one)" by code_simp
  then have fetched: "make_request ?w ?url False globals_init
      = (Inr (Some page_one), snd (make_request ?w ?url False globals_init))"
    by (simp add: prod_eq_iff)
  have k: "1 < length (items page_one)" by code_simp
  have at: "stops_at ?w (START_DATE globals_init) (items page_one ! 1)" by code_simp
  have "\<not> stops_at ?w (START_DATE globals_init) (items page_one ! 0)" by code_simp
  then have before: "\<forall>j<1. \<not> stops_at ?w (START_DATE globals_init) (items page_one ! j)" by simp
  have e: "map (\<lambda>it. CStr (the (title it)))
      (filter (emitted ?w (START_DATE globals_init)) (take 1 (items page_one))) = [CStr ''Alien'']"
    by code_simp
  have sd: "START_DATE globals_init = ''20050502''" by (simp add: globals_init_def)
  have c: "strptime ''20050502'' fmt_plain = Inr (2005, 5, 2)" by code_simp
  have i0: "title (items page_one ! 0) \<noteq> None" "link (items page_one ! 0) \<noteq> None"
    "shown_date ?w (items page_one ! 0) = Some (2024, 3, 1)" by code_simp+
  have i1: "title (items page_one ! 1) \<noteq> None" "link (items page_one ! 1) \<noteq> None"
    "shown_date ?w (items page_one ! 1) = Some (2005, 5, 2)" by code_simp+
  note h = cutoff_halts [OF w running fetched k at before,
      of "[''https://movie.douban.com/people/1/collect?start=15'']" "[]", unfolded e, unfolded sd]
  note h1 = h [THEN conjunct1] and h2 = h [THEN conjunct2]
  from h1 have halts: "\<exists>rows g2. export_loop ?w
        [?url, ''https://movie.douban.com/people/1/collect?start=15''] [] globals_init = (Inr rows, g2)
     \<and> IS_OVER g2 \<and> map hd rows = [CStr ''Alien'']"
    by auto
  have calendar: "stops_at ?w ''20050502'' it = on_or_before (y, m, d) c
      \<and> emitted ?w ''20050502'' it = (\<not> on_or_before (y, m, d) c)"
    if "title it \<noteq> None" "link it \<noteq> None" "shown_date ?w it = Some (y, m, d)"
      "1000 \<le> y" "y \<le> 9999" "strptime ''20050502'' fmt_plain = Inr c"
    for it y m d c
    using h2 that by blast
  have y1: "1000 \<le> (2005 :: int)" "(2005 :: int) \<le> 9999"
    and y0: "1000 \<le> (2024 :: int)" "(2024 :: int) \<le> 9999"
    by simp_all
  note calendar [OF i1 y1 c] calendar [OF i0 y0 c]
  moreover have "on_or_before (2005, 5, 2) (2005, 5, 2)" "\<not> on_or_before (2024, 3, 1) (2005, 5, 2)"
    by (simp_all add: on_or_before_def)
  ultimately show ?thesis using halts by blast
qed

text \<open>The claim as the specification words it fails: the dates of the page fall, its
  second item lies on the cutoff date and has no title element; the flag stays unset and
  the next page is fetched.\<close>

theorem untitled_item_no_halt:
  "at_or_before_cutoff (world_of_pages (site page_untitled)) ''20050502'' (items page_untitled ! 0) = Inr False
   \<and> at_or_before_cutoff (world_of_pages (site page_untitled)) ''20050502'' (items page_untitled ! 1) = Inr True
   \<and> \<not> IS_OVER (snd (get_info (world_of_pages (site page_untitled))
          ''https://movie.douban.com/people/1/collect?start=0'' globals_init))
   \<and> Fetch ViaBrowser ''https://movie.douban.com/people/1/collect?start=15''
       \<in> set (trace (snd (export_loop (world_of_pages (site page_untitled))
            [''https://movie.douban.com/people/1/collect?start=0'',
             ''https://movie.douban.com/people/1/collect?start=15''] [] globals_init)))"
  by code_simp

section \<open>The browser session\<close>

text \<open>Once the entry point has entered its \<open>try\<close> statement, the \<open>finally\<close> clause
  releases the session, however the body ends.\<close>

lemma quit_driver_releases: "DRIVER (quit_driver g) = None"
  by (simp add: quit_driver_def log_def split: option.splits)

lemma session_released:
  "check_user_exist w (user_id a) (if start_date a \<noteq> [] then g\<lparr>START_DATE := start_date a\<rparr> else g)
     = (Inr True, g1)
   \<Longrightarrow> DRIVER (snd (exporter_main w a g)) = None"
  by (auto simp: exporter_main_def Let_def quit_driver_releases
      split: prod.splits sum.splits abort.splits)

text \<open>
  Claim C9 fails on the code. \<open>check_user_exist\<close> runs before the \<open>try\<close> statement, and
  its request starts Chrome. For a user the source site does not know, the entry point
  then calls \<open>sys.exit(1)\<close>: the process ends with the session still held, and
  \<open>quit_driver\<close> was never called.
\<close>

theorem session_left_open:
  "fst (exporter_main (world_serving missing_page) nobody globals_init) = Exit 1
   \<and> DRIVER (snd (exporter_main (world_serving missing_page) nobody globals_init)) = Some 0
   \<and> trace (snd (exporter_main (world_serving missing_page) nobody globals_init))
       = [ChromeStarted, Fetch ViaBrowser ''https://movie.douban.com/people/nobody/'']"
  by code_simp

text \<open>The importer quits its browser at the end of \<open>mark\<close>, outside any \<open>finally\<close>: when the
  operator does not sign in and \<open>login\<close> re-raises the timeout, Firefox is left running.\<close>

lemma importer_session_left_open:
  "mark is_unmark adj LoginFails us content = Traceback TimeoutException (act [DriverStart] mark_init)
   \<and> DriverQuit \<notin> set (ui_log (act [DriverStart] mark_init))"
  by (simp add: mark_def act_def mark_init_def)

section \<open>The CSV file\<close>

lemmas csv_chars = LF_def CR_def DQUOTE_def COMMA_def

lemma feed_line_chars:
  "feed_line p l = (case feed_chars p l of Inl e \<Rightarrow> Inl e | Inr q \<Rightarrow> parse_process_char q None)"
  by (induction l arbitrary: p) (auto split: sum.splits)

lemma stream_reader_chars:
  "stream_reader p (map Some s @ xs)
     = (case feed_chars p s of Inl e \<Rightarrow> ([], Some e) | Inr q \<Rightarrow> stream_reader q xs)"
  by (induction s arbitrary: p) (auto split: sum.splits)

lemma file_lines_first:
  "LF \<notin> set s \<Longrightarrow> file_lines cur (s @ LF # rest) = (cur @ s @ [LF]) # file_lines [] rest"
  by (induction s arbitrary: cur) auto

lemma with_eol_append: "with_eol (s @ t) = with_eol s @ with_eol t"
  by (induction s) auto

lemma with_eol_plain: "LF \<notin> set s \<Longrightarrow> with_eol s = map Some s"
  by (induction s) auto

text \<open>On a file that ends with a line feed, reading line by line is reading the
  characters with the end-of-line signals put in.\<close>

lemma reader_stream:
  "content = [] \<or> last content = LF \<Longrightarrow>
   reader p (file_lines [] content) = stream_reader p (with_eol content)"
proof (induction "length content" arbitrary: content p rule: less_induct)
  case less
  show ?case
  proof (cases "content = []")
    case True
    then show ?thesis by simp
  next
    case False
    with less.prems have "LF \<in> set content" by (metis last_in_set)
    then obtain s rest where c: "content = s @ LF # rest" and s: "LF \<notin> set s"
      by (auto dest: split_list_first)
    have r: "rest = [] \<or> last rest = LF" using less.prems c by (auto split: if_splits)
    have ih: "reader q (file_lines [] rest) = stream_reader q (with_eol rest)" for q
      using less.hyps [of rest q] r c by simp
    have w: "with_eol content = map Some (s @ [LF]) @ None # with_eol rest"
      using s by (simp add: c with_eol_append with_eol_plain)
    show ?thesis
      unfolding w stream_reader_chars
      using s by (auto simp: c file_lines_first feed_line_chars ih split: sum.splits)
  qed
qed

text \<open>The parser on an unquoted field, on the body of a quoted field, and on a field
  with the delimiter or the line end after it.\<close>

lemma in_field:
  "\<forall>c \<in> set t. \<not> needs_quote c \<Longrightarrow> int (length (acc @ t)) \<le> field_limit \<Longrightarrow>
   stream_reader \<lparr>pfields = fs, pfield = acc, pst = IN_FIELD\<rparr> (map Some t @ xs)
     = stream_reader \<lparr>pfields = fs, pfield = acc @ t, pst = IN_FIELD\<rparr> xs"
proof (induction t arbitrary: acc)
  case Nil
  show ?case by simp
next
  case (Cons c t)
  from Cons.prems have "\<not> needs_quote c" "\<not> int (length acc) \<ge> field_limit" by auto
  moreover have "stream_reader \<lparr>pfields = fs, pfield = acc @ [c], pst = IN_FIELD\<rparr> (map Some t @ xs)
     = stream_reader \<lparr>pfields = fs, pfield = (acc @ [c]) @ t, pst = IN_FIELD\<rparr> xs"
    using Cons.prems by (intro Cons.IH) auto
  ultimately show ?case
    by (simp add: parse_process_char_def parse_add_char_def is_newline_def needs_quote_def)
qed

lemma in_quoted:
  "int (length (acc @ f)) \<le> field_limit \<Longrightarrow>
   stream_reader \<lparr>pfields = fs, pfield = acc, pst = IN_QUOTED_FIELD\<rparr> (with_eol (doubled f) @ xs)
     = stream_reader \<lparr>pfields = fs, pfield = acc @ f, pst = IN_QUOTED_FIELD\<rparr> xs"
proof (induction f arbitrary: acc)
  case Nil
  show ?case by (simp add: doubled_def)
next
  case (Cons c f)
  from Cons.prems have l: "\<not> int (length acc) \<ge> field_limit" by auto
  have ih: "stream_reader \<lparr>pfields = fs, pfield = acc @ [c], pst = IN_QUOTED_FIELD\<rparr> (with_eol (doubled f) @ xs)
     = stream_reader \<lparr>pfields = fs, pfield = (acc @ [c]) @ f, pst = IN_QUOTED_FIELD\<rparr> xs"
    using Cons.prems by (intro Cons.IH) auto
  have d: "doubled (c # f) = (if c = DQUOTE then [c, c] else [c]) @ doubled f"
    by (simp add: doubled_def)
  show ?case
    unfolding d using l ih
    by (auto simp: with_eol_append parse_process_char_def parse_add_char_def DQUOTE_def LF_def)
qed

lemma quote_field_cases:
  "(list_ex needs_quote f \<and> quote_field f = DQUOTE # doubled f @ [DQUOTE])
   \<or> ((\<forall>c \<in> set f. \<not> needs_quote c) \<and> quote_field f = f)"
  by (auto simp: quote_field_def doubled_def list_ex_iff)

lemma plain_no_lf: "\<forall>c \<in> set f. \<not> needs_quote c \<Longrightarrow> LF \<notin> set f"
  by (auto simp: needs_quote_def)

lemma field_then_comma:
  assumes "st = START_RECORD \<or> st = START_FIELD" and "int (length f) \<le> field_limit"
  shows "stream_reader \<lparr>pfields = fs, pfield = [], pst = st\<rparr> (with_eol (quote_field f @ [COMMA]) @ xs)
     = stream_reader \<lparr>pfields = fs @ [f], pfield = [], pst = START_FIELD\<rparr> xs"
proof -
  consider (quoted) "list_ex needs_quote f" "quote_field f = DQUOTE # doubled f @ [DQUOTE]"
    | (bare) "\<forall>c \<in> set f. \<not> needs_quote c" "quote_field f = f"
    using quote_field_cases by blast
  then show ?thesis
  proof cases
    case quoted
    have "stream_reader \<lparr>pfields = fs, pfield = [], pst = st\<rparr>
            (Some DQUOTE # with_eol (doubled f) @ Some DQUOTE # Some COMMA # xs)
        = stream_reader \<lparr>pfields = fs, pfield = [], pst = IN_QUOTED_FIELD\<rparr>
            (with_eol (doubled f) @ Some DQUOTE # Some COMMA # xs)"
      using assms(1)
      by (auto simp: parse_process_char_def start_field_def is_newline_def csv_chars)
    also have "\<dots> = stream_reader \<lparr>pfields = fs, pfield = f, pst = IN_QUOTED_FIELD\<rparr>
            (Some DQUOTE # Some COMMA # xs)"
      using in_quoted [of "[]" f fs] assms(2) by simp
    also have "\<dots> = stream_reader \<lparr>pfields = fs @ [f], pfield = [], pst = START_FIELD\<rparr> xs"
      by (simp add: parse_process_char_def parse_save_field_def csv_chars)
    finally show ?thesis
      by (simp add: quoted(2) with_eol_append csv_chars)
  next
    case bare
    have w: "with_eol (quote_field f @ [COMMA]) = map Some f @ [Some COMMA]"
      using plain_no_lf [OF bare(1)] by (simp add: bare(2) with_eol_append with_eol_plain csv_chars)
    show ?thesis
    proof (cases f)
      case Nil
      with assms(1) show ?thesis
        unfolding w
        by (auto simp: parse_process_char_def start_field_def is_newline_def parse_save_field_def csv_chars)
    next
      case (Cons c t)
      from bare(1) Cons have c: "\<not> needs_quote c" and t: "\<forall>c \<in> set t. \<not> needs_quote c" by auto
      have l: "\<not> int (length ([]::string)) \<ge> field_limit" by (simp add: field_limit_def)
      have "stream_reader \<lparr>pfields = fs, pfield = [], pst = st\<rparr> (map Some f @ Some COMMA # xs)
          = stream_reader \<lparr>pfields = fs, pfield = [c], pst = IN_FIELD\<rparr> (map Some t @ Some COMMA # xs)"
        using assms(1) c l unfolding Cons
        by (auto simp: parse_process_char_def start_field_def is_newline_def parse_add_char_def
            needs_quote_def)
      also have "\<dots> = stream_reader \<lparr>pfields = fs, pfield = [c] @ t, pst = IN_FIELD\<rparr> (Some COMMA # xs)"
        using in_field [OF t, of "[c]" fs "Some COMMA # xs"] assms(2) Cons by simp
      also have "\<dots> = stream_reader \<lparr>pfields = fs @ [f], pfield = [], pst = START_FIELD\<rparr> xs"
        by (simp add: Cons parse_process_char_def parse_save_field_def is_newline_def csv_chars)
      finally show ?thesis unfolding w by simp
    qed
  qed
qed

lemma field_then_newline:
  assumes "int (length f) \<le> field_limit"
  shows "stream_reader \<lparr>pfields = fs, pfield = [], pst = START_FIELD\<rparr> (with_eol (quote_field f @ [LF]) @ xs)
     = (case stream_reader parse_reset xs of (rows, e) \<Rightarrow> ((fs @ [f]) # rows, e))"
proof -
  have e: "stream_reader \<lparr>pfields = fs, pfield = f, pst = s\<rparr> (Some LF # None # xs)
      = (case stream_reader parse_reset xs of (rows, e) \<Rightarrow> ((fs @ [f]) # rows, e))"
    if "s = IN_FIELD \<or> s = QUOTE_IN_QUOTED_FIELD \<or> (s = START_FIELD \<and> f = [])" for s
    using that
    by (auto simp: parse_process_char_def start_field_def is_newline_def after_newline_def
        parse_save_field_def csv_chars)
  consider (quoted) "list_ex needs_quote f" "quote_field f = DQUOTE # doubled f @ [DQUOTE]"
    | (bare) "\<forall>c \<in> set f. \<not> needs_quote c" "quote_field f = f"
    using quote_field_cases by blast
  then show ?thesis
  proof cases
    case quoted
    have "stream_reader \<lparr>pfields = fs, pfield = [], pst = START_FIELD\<rparr>
            (Some DQUOTE # with_eol (doubled f) @ Some DQUOTE # Some LF # None # xs)
        = stream_reader \<lparr>pfields = fs, pfield = [], pst = IN_QUOTED_FIELD\<rparr>
            (with_eol (doubled f) @ Some DQUOTE # Some LF # None # xs)"
      by (auto simp: parse_process_char_def start_field_def is_newline_def csv_chars)
    also have "\<dots> = stream_reader \<lparr>pfields = fs, pfield = f, pst = IN_QUOTED_FIELD\<rparr>
            (Some DQUOTE # Some LF # None # xs)"
      using in_quoted [of "[]" f fs] assms by simp
    also have "\<dots> = stream_reader \<lparr>pfields = fs, pfield = f, pst = QUOTE_IN_QUOTED_FIELD\<rparr>
            (Some LF # None # xs)"
      by (simp add: parse_process_char_def csv_chars)
    finally show ?thesis
      using e [of QUOTE_IN_QUOTED_FIELD]
      by (simp add: quoted(2) with_eol_append csv_chars)
  next
    case bare
    have w: "with_eol (quote_field f @ [LF]) = map Some f @ [Some LF, None]"
      using plain_no_lf [OF bare(1)] by (simp add: bare(2) with_eol_append with_eol_plain)
    show ?thesis
    proof (cases f)
      case Nil
      with e [of START_FIELD] show ?thesis unfolding w by simp
    next
      case (Cons c t)
      from bare(1) Cons have c: "\<not> needs_quote c" and t: "\<forall>c \<in> set t. \<not> needs_quote c" by auto
      have l: "\<not> int (length ([]::string)) \<ge> field_limit" by (simp add: field_limit_def)
      have "stream_reader \<lparr>pfields = fs, pfield = [], pst = START_FIELD\<rparr> (map Some f @ Some LF # None # xs)
          = stream_reader \<lparr>pfields = fs, pfield = [c], pst = IN_FIELD\<rparr> (map Some t @ Some LF # None # xs)"
        using c l unfolding Cons
        by (auto simp: parse_process_char_def start_field_def is_newline_def parse_add_char_def
            needs_quote_def)
      also have "\<dots> = stream_reader \<lparr>pfields = fs, pfield = [c] @ t, pst = IN_FIELD\<rparr> (Some LF # None # xs)"
        using in_field [OF t, of "[c]" fs "Some LF # None # xs"] assms Cons by simp
      finally show ?thesis unfolding w using e [of IN_FIELD] Cons by simp
    qed
  qed
qed

lemma row_read:
  assumes "int (length a) \<le> field_limit" and "int (length b) \<le> field_limit"
    and "int (length c) \<le> field_limit"
  shows "stream_reader parse_reset
           (with_eol (quote_field a @ [COMMA] @ quote_field b @ [COMMA] @ quote_field c @ [LF]) @ xs)
     = (case stream_reader parse_reset xs of (rows, e) \<Rightarrow> ([a, b, c] # rows, e))"
proof -
  have "stream_reader \<lparr>pfields = [], pfield = [], pst = START_RECORD\<rparr>
           (with_eol (quote_field a @ [COMMA]) @ with_eol (quote_field b @ [COMMA])
              @ with_eol (quote_field c @ [LF]) @ xs)
     = (case stream_reader parse_reset xs of (rows, e) \<Rightarrow> ([a, b, c] # rows, e))"
    by (simp only: field_then_comma [OF _ assms(1)] field_then_comma [OF _ assms(2)]
        field_then_newline [OF assms(3)] append_Nil append_Cons simp_thms)
  note h = this [unfolded parse_reset_def]
  have eq: "with_eol (quote_field a @ [COMMA] @ quote_field b @ [COMMA] @ quote_field c @ [LF]) @ xs
      = with_eol (quote_field a @ [COMMA]) @ with_eol (quote_field b @ [COMMA])
          @ with_eol (quote_field c @ [LF]) @ xs"
    by (simp add: with_eol_append)
  show ?thesis unfolding eq parse_reset_def by (rule h)
qed

lemma rows_read:
  "\<forall>row \<in> set rows. length row = 3 \<and> (\<forall>c \<in> set row. plain_cell c) \<Longrightarrow>
   stream_reader parse_reset (with_eol (writerows rows)) = (map (map cell_text) rows, None)"
proof (induction rows)
  case Nil
  show ?case by (simp add: writerows_def parse_reset_def)
next
  case (Cons row rows)
  then obtain a b c where r: "row = [a, b, c]"
    by (cases row; cases "tl row"; cases "tl (tl row)") auto
  from Cons.prems r have l: "int (length (cell_text a)) \<le> field_limit"
    "int (length (cell_text b)) \<le> field_limit" "int (length (cell_text c)) \<le> field_limit"
    by (auto simp: plain_cell_def)
  have w: "writerows (row # rows)
      = (quote_field (cell_text a) @ [COMMA] @ quote_field (cell_text b) @ [COMMA]
          @ quote_field (cell_text c) @ [LF]) @ writerows rows"
    by (simp add: writerows_def writerow_def r)
  have ih: "stream_reader parse_reset (with_eol (writerows rows)) = (map (map cell_text) rows, None)"
    using Cons by simp
  show ?case
    unfolding w with_eol_append [of _ "writerows rows"] row_read [OF l] ih
    by (simp add: r)
qed

lemma universal_newlines_plain: "CR \<notin> set s \<Longrightarrow> universal_newlines s = s"
  by (induction s rule: universal_newlines.induct) auto

lemma set_join: "set (join sep xs) \<subseteq> set sep \<union> \<Union> (set ` set xs)"
  by (induction sep xs rule: join.induct) auto

lemma set_quote_field: "set (quote_field f) \<subseteq> insert DQUOTE (set f)"
  by (auto simp: quote_field_def split: if_splits)

lemma writerow_no_cr:
  assumes "\<forall>c \<in> set row. CR \<notin> set (cell_text c)"
  shows "CR \<notin> set (writerow row)"
proof -
  have "set (join [COMMA] (map (quote_field \<circ> cell_text) row))
      \<subseteq> {COMMA, DQUOTE} \<union> \<Union> (set ` cell_text ` set row)"
    using set_join [of "[COMMA]" "map (quote_field \<circ> cell_text) row"] set_quote_field
    by fastforce
  with assms show ?thesis
    by (auto simp: writerow_def csv_chars)
qed

lemma writerows_no_cr:
  "\<forall>row \<in> set rows. \<forall>c \<in> set row. CR \<notin> set (cell_text c) \<Longrightarrow> CR \<notin> set (writerows rows)"
  by (auto simp: writerows_def dest: writerow_no_cr)

lemma writerows_ends: "writerows rows = [] \<or> last (writerows rows) = LF"
proof (induction rows rule: rev_induct)
  case Nil
  show ?case by (simp add: writerows_def)
next
  case (snoc row rows)
  have "writerow row \<noteq> [] \<and> last (writerow row) = LF" by (simp add: writerow_def)
  then show ?case by (simp add: writerows_def)
qed

text \<open>Rows of three cells without a carriage return, each within the reader's field
  limit, are read back as they were written: quoting, doubled quotes and line feeds
  inside fields are undone by the reader.\<close>

lemma csv_round_trip:
  assumes "\<forall>row \<in> set rows. length row = 3 \<and> (\<forall>c \<in> set row. plain_cell c)"
  shows "read_csv (writerows rows) = (map (map cell_text) rows, None)"
proof -
  have "CR \<notin> set (writerows rows)"
    using assms by (intro writerows_no_cr) (auto simp: plain_cell_def)
  then have "read_csv (writerows rows) = reader parse_reset (file_lines [] (writerows rows))"
    by (simp add: read_csv_def universal_newlines_plain)
  also have "\<dots> = stream_reader parse_reset (with_eol (writerows rows))"
    using writerows_ends by (rule reader_stream)
  also have "\<dots> = (map (map cell_text) rows, None)"
    using assms by (rule rows_read)
  finally show ?thesis .
qed

lemma rating_cell_plain: "1 \<le> n \<Longrightarrow> n \<le> 5 \<Longrightarrow> plain_cell (CInt n)"
proof -
  assume "1 \<le> n" "n \<le> 5"
  then consider "n = 1" | "n = 2" | "n = 3" | "n = 4" | "n = 5" by linarith
  then show ?thesis
  proof cases
    case 1 show ?thesis unfolding 1 by code_simp
  next
    case 2 show ?thesis unfolding 2 by code_simp
  next
    case 3 show ?thesis unfolding 3 by code_simp
  next
    case 4 show ?thesis unfolding 4 by code_simp
  next
    case 5 show ?thesis unfolding 5 by code_simp
  qed
qed

text \<open>So the records the exporter can write are read back by the importer with the same
  strings, an absent rating or id as the empty string, as long as no title and no id
  contains a carriage return (and none is longer than the field limit).\<close>

lemma record_plain:
  assumes "plain_cell (CStr t)" and "\<forall>n. r = Some n \<longrightarrow> 1 \<le> n \<and> n \<le> 5"
    and "\<forall>s. i = Some s \<longrightarrow> plain_cell (CStr s)"
  shows "length (record_of t r i) = 3 \<and> (\<forall>c \<in> set (record_of t r i). plain_cell c)"
proof -
  have "plain_cell CNone" by (simp add: plain_cell_def cell_text_def field_limit_def)
  with assms show ?thesis
    by (auto simp: record_of_def rating_cell_plain split: option.splits)
qed

lemma record_round_trip:
  assumes "\<forall>(t, r, i) \<in> set recs.
      plain_cell (CStr t) \<and> (\<forall>n. r = Some n \<longrightarrow> 1 \<le> n \<and> n \<le> 5) \<and> (\<forall>s. i = Some s \<longrightarrow> plain_cell (CStr s))"
  shows "read_csv (writerows (map (\<lambda>(t, r, i). record_of t r i) recs))
    = (map (\<lambda>(t, r, i). map cell_text (record_of t r i)) recs, None)"
proof -
  have "length row = 3 \<and> (\<forall>c \<in> set row. plain_cell c)"
    if "row \<in> set (map (\<lambda>(t, r, i). record_of t r i) recs)" for row
  proof -
    from that obtain t r i where m: "(t, r, i) \<in> set recs" and row: "row = record_of t r i"
      by auto
    from assms m have "plain_cell (CStr t)" "\<forall>n. r = Some n \<longrightarrow> 1 \<le> n \<and> n \<le> 5"
      "\<forall>s. i = Some s \<longrightarrow> plain_cell (CStr s)"
      by auto
    then show ?thesis unfolding row by (rule record_plain)
  qed
  then have "\<forall>row \<in> set (map (\<lambda>(t, r, i). record_of t r i) recs).
      length row = 3 \<and> (\<forall>c \<in> set row. plain_cell c)"
    by blast
  from csv_round_trip [OF this] show ?thesis
    by (simp add: comp_def case_prod_unfold)
qed

text \<open>
  Claim C7 fails on the code. The exporter opens \<open>movie.csv\<close> with \<open>newline=''\<close>, the
  importer does not, so every carriage return in the file reaches the reader as a line
  feed. A title with a carriage return is written inside quotes and read back with a
  line feed in its place: one row, and not the title that was written.
\<close>

theorem carriage_return_lost:
  "map cell_text (record_of [CHR ''a'', CR, CHR ''b''] (Some 4) (Some ''tt0078748''))
     = [[CHR ''a'', CR, CHR ''b''], ''4'', ''tt0078748'']
   \<and> read_csv (writerows [record_of [CHR ''a'', CR, CHR ''b''] (Some 4) (Some ''tt0078748'')])
     = ([[[CHR ''a'', LF, CHR ''b''], ''4'', ''tt0078748'']], None)"
  by code_simp

end
